(* ===== verification/Prelude.thy ===== *)
theory Prelude
  imports Complex_Main "HOL-Library.Multiset" "HOL-Library.AList"
begin

text \<open>
  Shared vocabulary of the development: the JSON values and dictionaries that
  travel between agent and server, the Python list operations the code uses,
  the two SQL idioms of its queries (order by a column and limit, delete the
  rows whose key is selected), and the generic list and multiset lemmas the
  component theories rest on.
\<close>

section \<open>Named collections\<close>

named_theorems py_simps \<open>unfolding rules for the Python idioms\<close>
named_theorems table_simps \<open>rewriting rules for table operations\<close>

section \<open>Identifiers, time and JSON values\<close>

text \<open>A UUID is only compared for equality, so it is a number; an instant is a
  number of microseconds, so that every comparison and difference of the code
  is exact.\<close>

type_synonym uuid = nat
type_synonym instant = int

text \<open>JSON values as the Python \<open>json\<close> module yields them. A dictionary keeps
  insertion order and its keys are unique, so it is an association list updated
  in place.\<close>

datatype json =
    JNull
  | JBool bool
  | JInt int
  | JFloat rat
  | JStr string
  | JList "json list"
  | JDict "(string \<times> json) list"

type_synonym dict = "(string \<times> json) list"

abbreviation dict_get :: "dict \<Rightarrow> string \<Rightarrow> json option" where
  "dict_get d k \<equiv> map_of d k"

abbreviation dict_set :: "string \<Rightarrow> json \<Rightarrow> dict \<Rightarrow> dict" where
  "dict_set k v d \<equiv> AList.update k v d"

text \<open>\<open>isinstance(v, int)\<close> holds of Python booleans too.\<close>

fun py_int :: "json \<Rightarrow> int option" where
  "py_int (JInt n) = Some n"
| "py_int (JBool b) = Some (of_bool b)"
| "py_int _ = None"

text \<open>Truth of a value in a Python condition.\<close>

fun py_truthy :: "json \<Rightarrow> bool" where
  "py_truthy JNull = False"
| "py_truthy (JBool b) = b"
| "py_truthy (JInt n) = (n \<noteq> 0)"
| "py_truthy (JFloat q) = (q \<noteq> 0)"
| "py_truthy (JStr s) = (s \<noteq> [])"
| "py_truthy (JList xs) = (xs \<noteq> [])"
| "py_truthy (JDict d) = (d \<noteq> [])"

lemma dict_get_set [simp]:
  "dict_get (dict_set k v d) k' = (if k' = k then Some v else dict_get d k')"
  by (simp add: update_conv')

lemma dict_keys_distinct [simp]:
  "distinct (map fst d) \<Longrightarrow> distinct (map fst (dict_set k v d))"
  by (rule distinct_update)

section \<open>Python slices\<close>

text \<open>\<open>xs[k:]\<close> for any integer \<open>k\<close>: a negative index counts from the end and
  is clamped at the start, one past the end gives the empty list.\<close>

definition py_from :: "int \<Rightarrow> 'a list \<Rightarrow> 'a list" where
  [py_simps]: "py_from k xs =
     (if k < 0 then drop (nat (int (length xs) + k)) xs else drop (nat k) xs)"

lemma py_from_split: "take (length xs - length (py_from k xs)) xs @ py_from k xs = xs"
proof -
  have "take (length xs - length (drop n xs)) xs @ drop n xs = xs" for n
    by (cases "n \<le> length xs") simp_all
  then show ?thesis by (simp only: py_from_def split: if_split) blast
qed

lemma length_py_from_neg:
  "0 < n \<Longrightarrow> length (py_from (- int n) xs) = min n (length xs)"
  by (auto simp: py_from_def nat_diff_distrib' min_def)

lemma py_from_neg_suffix:
  "py_from (- int n) xs = drop (length xs - n) xs \<or> n = 0"
  by (auto simp: py_from_def nat_diff_distrib')

section \<open>Queries on tables\<close>

text \<open>A table is the list of its rows in insertion order. \<open>ORDER BY key ASC
  LIMIT n\<close> takes the first \<open>n\<close> rows of the stable sort; rows with equal keys
  come in insertion order, as the engines give them off a row-id index.\<close>

definition first_by :: "('r \<Rightarrow> 'k::linorder) \<Rightarrow> nat \<Rightarrow> 'r list \<Rightarrow> 'r list" where
  "first_by key n rows = take n (sort_key key rows)"

text \<open>\<open>DELETE FROM t WHERE id IN (...)\<close>.\<close>

definition delete_ids :: "('r \<Rightarrow> 'i) \<Rightarrow> 'i list \<Rightarrow> 'r list \<Rightarrow> 'r list" where
  "delete_ids rid ids rows = filter (\<lambda>r. rid r \<notin> set ids) rows"

lemma set_first_by: "set (first_by key n rows) \<subseteq> set rows"
  by (metis first_by_def set_sort set_take_subset)

lemma length_first_by [table_simps]:
  "length (first_by key n rows) = min n (length rows)"
  by (simp add: first_by_def)

lemma distinct_first_by:
  assumes "distinct (map rid rows)"
  shows "distinct (map rid (first_by key n rows))"
proof -
  have "mset (map rid (sort_key key rows)) = mset (map rid rows)"
    by simp
  with assms have "distinct (map rid (sort_key key rows))"
    by (metis mset_eq_imp_distinct_iff)
  then show ?thesis
    by (simp add: first_by_def take_map [symmetric])
qed

text \<open>Every row taken is no later than every row left behind.\<close>

lemma first_by_le:
  assumes "x \<in> set (first_by key n rows)" and "y \<in> set (drop n (sort_key key rows))"
  shows "key x \<le> key y"
proof -
  have "sorted (map key (take n (sort_key key rows) @ drop n (sort_key key rows)))"
    by simp
  then show ?thesis
    using assms unfolding map_append sorted_append first_by_def by auto
qed

lemma set_delete_ids [table_simps]:
  "set (delete_ids rid ids rows) = {r \<in> set rows. rid r \<notin> set ids}"
  by (auto simp: delete_ids_def)

lemma distinct_delete_ids [table_simps]:
  "distinct (map rid rows) \<Longrightarrow> distinct (map rid (delete_ids rid ids rows))"
  by (simp add: delete_ids_def distinct_map_filter)

lemma delete_ids_Nil [simp]: "delete_ids rid [] rows = rows"
  by (simp add: delete_ids_def)

text \<open>Deleting the ids of rows \<open>sel\<close> of the table removes exactly these rows,
  when ids are unique.\<close>

lemma inj_on_distinct_map: "distinct (map rid rows) \<Longrightarrow> inj_on rid (set rows)"
  by (simp add: distinct_map)

lemma mset_delete_ids:
  assumes "distinct (map rid rows)" and "distinct sel" and "set sel \<subseteq> set rows"
  shows "mset (delete_ids rid (map rid sel) rows) = mset rows - mset sel"
proof -
  have inj: "inj_on rid (set rows)" and dr: "distinct rows"
    using assms(1) by (simp_all add: distinct_map)
  have "rid r \<notin> rid ` set sel \<longleftrightarrow> r \<notin> set sel" if "r \<in> set rows" for r
    using inj assms(3) that by (auto dest: inj_onD)
  then have "delete_ids rid (map rid sel) rows = filter (\<lambda>r. r \<notin> set sel) rows"
    by (auto simp: delete_ids_def cong: filter_cong)
  moreover have "mset rows =
      mset (filter (\<lambda>r. r \<in> set sel) rows) + mset (filter (\<lambda>r. r \<notin> set sel) rows)"
    by (simp add: mset_filter)
  moreover have "mset (filter (\<lambda>r. r \<in> set sel) rows) = mset sel"
    using assms(2,3) dr by (subst set_eq_iff_mset_eq_distinct [symmetric]) auto
  ultimately show ?thesis
    by (metis add_diff_cancel_left')
qed

text \<open>Deleting the \<open>n\<close> first rows by some key leaves the others: the idiom
  with which both SQLite tables are held to their caps.\<close>

definition prune_first :: "('r \<Rightarrow> 'i) \<Rightarrow> ('r \<Rightarrow> 'k::linorder) \<Rightarrow> nat \<Rightarrow> 'r list \<Rightarrow> 'r list" where
  "prune_first rid key n rows = delete_ids rid (map rid (first_by key n rows)) rows"

lemma distinct_first_by_rows:
  "distinct (map rid rows) \<Longrightarrow> distinct (first_by key n rows)"
  using distinct_first_by [of rid rows key n] by (simp add: distinct_map)

lemma mset_prune_first:
  assumes "distinct (map rid rows)"
  shows "mset rows = mset (first_by key n rows) + mset (prune_first rid key n rows)"
proof -
  have sub: "mset (first_by key n rows) \<subseteq># mset rows"
    by (metis append_take_drop_id first_by_def mset_append mset_sort mset_subset_eq_add_left)
  have "mset (prune_first rid key n rows) = mset rows - mset (first_by key n rows)"
    unfolding prune_first_def
    using assms distinct_first_by_rows [OF assms] set_first_by by (rule mset_delete_ids)
  with sub show ?thesis by simp
qed

lemma length_prune_first:
  assumes "distinct (map rid rows)"
  shows "length (prune_first rid key n rows) = length rows - n"
proof -
  have "length rows = length (first_by key n rows) + length (prune_first rid key n rows)"
    using arg_cong [OF mset_prune_first [OF assms], of size] by simp
  then show ?thesis by (simp add: length_first_by)
qed

lemma set_prune_first_subset: "set (prune_first rid key n rows) \<subseteq> set rows"
  by (auto simp: prune_first_def set_delete_ids)

lemma distinct_prune_first:
  "distinct (map rid rows) \<Longrightarrow> distinct (map rid (prune_first rid key n rows))"
  by (simp add: prune_first_def distinct_delete_ids)

text \<open>What is pruned is never newer than what is kept.\<close>

lemma prune_first_oldest:
  assumes d: "distinct (map rid rows)"
    and x: "x \<in> set rows" "x \<notin> set (prune_first rid key n rows)"
    and y: "y \<in> set (prune_first rid key n rows)"
  shows "key x \<le> key y"
proof -
  let ?f = "first_by key n rows" and ?p = "prune_first rid key n rows"
  have "mset ?f + mset (drop n (sort_key key rows)) = mset rows"
    by (metis append_take_drop_id first_by_def mset_append mset_sort)
  then have "mset (drop n (sort_key key rows)) = mset ?p"
    using mset_prune_first [OF d, of key n] by simp
  then have "y \<in> set (drop n (sort_key key rows))"
    using y by (metis set_mset_mset)
  moreover have "x \<in> set ?f"
    using x mset_prune_first [OF d, of key n] by (metis set_mset_mset set_mset_union Un_iff)
  ultimately show ?thesis by (rule first_by_le [rotated])
qed

section \<open>Results and Python errors\<close>

text \<open>An operation that may raise returns \<open>Inl\<close> of the exception.\<close>

datatype py_error = TypeError | AttributeError | ValueError | NotFoundException string
  | ValidationException string | ConflictException string | AuthorizationException string
  | IntegrityError | StaleDataError | JobFinishedException

definition res_bind :: "'e + 'a \<Rightarrow> ('a \<Rightarrow> 'e + 'b) \<Rightarrow> 'e + 'b" where
  [py_simps]: "res_bind r k = (case r of Inl e \<Rightarrow> Inl e | Inr x \<Rightarrow> k x)"

lemma res_bind_simps [simp]: "res_bind (Inl e) k = Inl e" "res_bind (Inr x) k = k x"
  by (simp_all add: res_bind_def)

lemma res_bind_Inr_iff: "res_bind r k = Inr y \<longleftrightarrow> (\<exists>x. r = Inr x \<and> k x = Inr y)"
  by (cases r) simp_all

text \<open>\<open>v.get(key, default)\<close> on a JSON value: an attribute error unless it is a
  dictionary.\<close>

fun py_get :: "json \<Rightarrow> string \<Rightarrow> json \<Rightarrow> py_error + json" where
  "py_get (JDict d) k dflt = Inr (case dict_get d k of None \<Rightarrow> dflt | Some v \<Rightarrow> v)"
| "py_get _ _ _ = Inl AttributeError"

definition dict_get_or :: "dict \<Rightarrow> string \<Rightarrow> json \<Rightarrow> json" where
  "dict_get_or d k dflt = (case dict_get d k of None \<Rightarrow> dflt | Some v \<Rightarrow> v)"

text \<open>The number a JSON value compares as, if it is one.\<close>

fun py_num :: "json \<Rightarrow> rat option" where
  "py_num (JInt n) = Some (of_int n)"
| "py_num (JBool b) = Some (of_bool b)"
| "py_num (JFloat q) = Some q"
| "py_num _ = None"

text \<open>\<open>s in v\<close> for a string \<open>s\<close>: list membership, substring, or dictionary key.\<close>

fun is_substring :: "'a list \<Rightarrow> 'a list \<Rightarrow> bool" where
  "is_substring s [] = (s = [])"
| "is_substring s (x # xs) = (take (length s) (x # xs) = s \<or> is_substring s xs)"

fun py_in :: "string \<Rightarrow> json \<Rightarrow> py_error + bool" where
  "py_in s (JList xs) = Inr (JStr s \<in> set xs)"
| "py_in s (JStr t) = Inr (is_substring s t)"
| "py_in s (JDict d) = Inr (s \<in> set (map fst d))"
| "py_in _ _ = Inl TypeError"

text \<open>\<open>a \<le> b\<close> on JSON values that are numbers; a comparison of anything else is taken
  to raise.\<close>

definition py_le :: "json \<Rightarrow> json \<Rightarrow> py_error + bool" where
  "py_le a b =
     (case (py_num a, py_num b) of
        (Some x, Some y) \<Rightarrow> Inr (x \<le> y)
      | _ \<Rightarrow> Inl TypeError)"

text \<open>Decimal numerals, as \<open>str\<close> prints integers.\<close>

fun nat_str :: "nat \<Rightarrow> string" where
  "nat_str n = (if n < 10 then [char_of (48 + n)] else nat_str (n div 10) @ [char_of (48 + n mod 10)])"

declare nat_str.simps [simp del]

definition int_str :: "int \<Rightarrow> string" where
  "int_str n = (if n < 0 then CHR ''-'' # nat_str (nat (- n)) else nat_str (nat n))"

section \<open>Newest rows\<close>

text \<open>\<open>ORDER BY key DESC LIMIT 1\<close>: the row with the largest key; among equals the
  last inserted, as a backward index scan finds it.\<close>

fun latest_by :: "('r \<Rightarrow> 'k::linorder) \<Rightarrow> 'r list \<Rightarrow> 'r option" where
  "latest_by key [] = None"
| "latest_by key (r # rs) =
     (case latest_by key rs of
        None \<Rightarrow> Some r
      | Some q \<Rightarrow> if key r \<le> key q then Some q else Some r)"

text \<open>\<open>ORDER BY key DESC LIMIT n\<close>, newest first.\<close>

definition newest_by :: "('r \<Rightarrow> 'k::linorder) \<Rightarrow> nat \<Rightarrow> 'r list \<Rightarrow> 'r list" where
  "newest_by key n rows = take n (rev (sort_key key rows))"

lemma latest_by_None [simp]: "latest_by key rows = None \<longleftrightarrow> rows = []"
  by (cases rows) (auto split: option.splits if_splits)

lemma latest_by_in: "latest_by key rows = Some r \<Longrightarrow> r \<in> set rows"
  by (induction rows arbitrary: r) (auto split: option.splits if_splits)

lemma latest_by_max: "latest_by key rows = Some r \<Longrightarrow> q \<in> set rows \<Longrightarrow> key q \<le> key r"
  by (induction rows arbitrary: r) (auto split: option.splits if_splits dest: order_trans)

lemma latest_by_append:
  "latest_by key (xs @ ys) =
     (case latest_by key ys of
        None \<Rightarrow> latest_by key xs
      | Some q \<Rightarrow> (case latest_by key xs of
            None \<Rightarrow> Some q | Some r \<Rightarrow> if key r \<le> key q then Some q else Some r))"
  by (induction xs) (auto split: option.splits)

lemma latest_by_snoc:
  assumes "\<forall>r\<in>set rows. key r \<le> key q"
  shows "latest_by key (rows @ [q]) = Some q"
  using assms by (auto simp: latest_by_append split: option.splits dest: latest_by_in)

lemma latest_by_sorted:
  "sorted (map key rows) \<Longrightarrow> rows \<noteq> [] \<Longrightarrow> latest_by key rows = Some (last rows)"
proof (induction rows rule: rev_induct)
  case (snoc q rows)
  then show ?case by (intro latest_by_snoc [THEN trans]) (auto simp: sorted_append)
qed simp

lemma last_remdups_adj [simp]: "xs \<noteq> [] \<Longrightarrow> last (remdups_adj xs) = last xs"
  by (induction xs rule: remdups_adj.induct) auto

lemma remdups_adj_snoc_same:
  "xs \<noteq> [] \<Longrightarrow> last xs = y \<Longrightarrow> remdups_adj (xs @ [y]) = remdups_adj xs"
  by (induction xs rule: remdups_adj.induct) (auto split: if_splits)

lemma remdups_adj_snoc_diff:
  "xs = [] \<or> last xs \<noteq> y \<Longrightarrow> remdups_adj (xs @ [y]) = remdups_adj xs @ [y]"
  by (induction xs rule: remdups_adj.induct) (auto split: if_splits)

lemma remdups_adj_append_replicate:
  "0 < n \<Longrightarrow> remdups_adj (xs @ replicate n y) = remdups_adj (xs @ [y])"
proof (induction n)
  case (Suc n)
  then show ?case
    by (cases "n = 0")
      (simp_all add: replicate_append_same [symmetric] remdups_adj_snoc_same
        flip: append_assoc)
qed simp

lemma newest_by_snoc:
  assumes "\<forall>r\<in>set rows. key r \<le> key q"
  shows "newest_by key (Suc n) (rows @ [q]) = q # newest_by key n rows"
proof -
  have st: "filter (\<lambda>x. k = key x) (sort_key key rows) = filter (\<lambda>x. k = key x) rows" for k
    using sort_key_stable [of key k rows] by (simp only: eq_commute [of "key _" k])
  have "sort_key key (rows @ [q]) = sort_key key rows @ [q]"
    by (rule properties_for_sort_key) (use assms st in \<open>auto simp: sorted_append\<close>)
  then show ?thesis by (simp add: newest_by_def)
qed

lemma length_newest_by: "length (newest_by key n rows) = min n (length rows)"
  by (simp add: newest_by_def)

lemma set_newest_by: "set (newest_by key n rows) \<subseteq> set rows"
  by (metis newest_by_def set_rev set_sort set_take_subset)

lemma length_filter_mono:
  "(\<And>x. x \<in> set xs \<Longrightarrow> P x \<Longrightarrow> Q x) \<Longrightarrow> length (filter P xs) \<le> length (filter Q xs)"
  by (induction xs) (auto simp: le_SucI)

section \<open>Maxima\<close>

text \<open>\<open>max(xs, key=key)\<close>: the first of the elements with the largest key.\<close>

fun max_by :: "('a \<Rightarrow> 'k::linorder) \<Rightarrow> 'a list \<Rightarrow> 'a option" where
  "max_by key [] = None"
| "max_by key (x # xs) =
     (case max_by key xs of
        None \<Rightarrow> Some x
      | Some y \<Rightarrow> if key x < key y then Some y else Some x)"

lemma max_by_None [simp]: "max_by key xs = None \<longleftrightarrow> xs = []"
  by (cases xs) (auto split: option.splits if_splits)

lemma max_by_in: "max_by key xs = Some x \<Longrightarrow> x \<in> set xs"
  by (induction xs arbitrary: x) (auto split: option.splits if_splits)

lemma max_by_max: "max_by key xs = Some x \<Longrightarrow> y \<in> set xs \<Longrightarrow> key y \<le> key x"
  by (induction xs arbitrary: x) (auto split: option.splits if_splits)

lemma max_by_eqI:
  assumes "inj_on key (set xs)" "x \<in> set xs" "\<forall>y\<in>set xs. key y \<le> key x"
  shows "max_by key xs = Some x"
proof -
  from assms(2) obtain z where z: "max_by key xs = Some z" by (cases "max_by key xs") auto
  with assms max_by_max [OF z assms(2)] max_by_in [OF z] have "key z = key x" by force
  with assms max_by_in [OF z] z show ?thesis by (auto dest: inj_onD)
qed

lemma max_by_set:
  assumes "inj_on key (set xs)" "set xs = set ys"
  shows "max_by key xs = max_by key ys"
proof (cases "max_by key ys")
  case None
  with assms(2) show ?thesis by simp
next
  case (Some y)
  with assms show ?thesis
    by (auto intro!: max_by_eqI dest: max_by_max max_by_in)
qed

lemma max_by_filter:
  assumes "inj_on key (set xs)" "max_by key xs = Some x" "P x"
  shows "max_by key (filter P xs) = Some x"
  using assms by (intro max_by_eqI) (auto intro: inj_on_subset max_by_in max_by_max)

section \<open>Strings\<close>

definition py_isspace :: "char \<Rightarrow> bool" where
  "py_isspace c \<longleftrightarrow> of_char c \<in> set [9, 10, 11, 12, 13, 28, 29, 30, 31, 32, 133, 160 :: nat]"

definition py_strip :: "string \<Rightarrow> string" where
  "py_strip s = rev (dropWhile py_isspace (rev (dropWhile py_isspace s)))"

text \<open>\<open>v in c\<close> for a JSON value \<open>v\<close> that is a string or \<open>None\<close>.\<close>

fun py_member :: "json \<Rightarrow> json \<Rightarrow> py_error + bool" where
  "py_member v (JList xs) = Inr (v \<in> set xs)"
| "py_member (JStr s) (JStr t) = Inr (is_substring s t)"
| "py_member v (JDict d) = Inr (v \<in> JStr ` set (map fst d))"
| "py_member _ _ = Inl TypeError"

text \<open>\<open>str(uuid)\<close>: 32 hexadecimal digits in five groups.\<close>

definition hex_digit :: "nat \<Rightarrow> char" where
  "hex_digit d = char_of (if d < 10 then 48 + d else 87 + d)"

fun hex_str :: "nat \<Rightarrow> nat \<Rightarrow> string" where
  "hex_str 0 n = []"
| "hex_str (Suc k) n = hex_str k (n div 16) @ [hex_digit (n mod 16)]"

definition uuid_str :: "uuid \<Rightarrow> string" where
  "uuid_str u =
     (let h = hex_str 32 u
      in take 8 h @ ''-'' @ take 4 (drop 8 h) @ ''-'' @ take 4 (drop 12 h) @ ''-'' @
         take 4 (drop 16 h) @ ''-'' @ drop 20 h)"

definition valid_uuid :: "uuid \<Rightarrow> bool" where
  "valid_uuid u \<longleftrightarrow> u < 2 ^ 128"

lemma hex_digit_inj: "a < 16 \<Longrightarrow> b < 16 \<Longrightarrow> hex_digit a = hex_digit b \<Longrightarrow> a = b"
proof -
  assume ab: "a < 16" "b < 16" and "hex_digit a = hex_digit b"
  then have "of_char (hex_digit a) = (of_char (hex_digit b) :: nat)" by simp
  with ab show "a = b" by (simp add: hex_digit_def split: if_splits)
qed

lemma length_hex_str [simp]: "length (hex_str k n) = k"
  by (induction k arbitrary: n) auto

lemma hex_str_inj: "m < 16 ^ k \<Longrightarrow> n < 16 ^ k \<Longrightarrow> hex_str k m = hex_str k n \<Longrightarrow> m = n"
proof (induction k arbitrary: m n)
  case (Suc k)
  then have "m div 16 < 16 ^ k" "n div 16 < 16 ^ k" by (simp_all add: less_mult_imp_div_less mult.commute)
  with Suc have "m div 16 = n div 16" by auto
  moreover have "m mod 16 = n mod 16"
    using Suc.prems hex_digit_inj [of "m mod 16" "n mod 16"] by simp
  ultimately show ?case by (metis div_mult_mod_eq)
qed simp

lemma append_split:
  "take 8 h @ ''-'' @ take 4 (drop 8 h) @ ''-'' @ take 4 (drop 12 h) @ ''-'' @
     take 4 (drop 16 h) @ ''-'' @ drop 20 h =
   take 8 g @ ''-'' @ take 4 (drop 8 g) @ ''-'' @ take 4 (drop 12 g) @ ''-'' @
     take 4 (drop 16 g) @ ''-'' @ drop 20 g \<Longrightarrow> length h = 32 \<Longrightarrow> length g = 32 \<Longrightarrow> h = g"
proof -
  have parts: "h = take 8 h @ take 4 (drop 8 h) @ take 4 (drop 12 h) @ take 4 (drop 16 h) @ drop 20 h"
    for h :: string
    using append_take_drop_id [of 8 h] append_take_drop_id [of 4 "drop 8 h"]
      append_take_drop_id [of 4 "drop 12 h"] append_take_drop_id [of 4 "drop 16 h"] by simp
  assume "take 8 h @ ''-'' @ take 4 (drop 8 h) @ ''-'' @ take 4 (drop 12 h) @ ''-'' @
     take 4 (drop 16 h) @ ''-'' @ drop 20 h =
   take 8 g @ ''-'' @ take 4 (drop 8 g) @ ''-'' @ take 4 (drop 12 g) @ ''-'' @
     take 4 (drop 16 g) @ ''-'' @ drop 20 g" "length h = 32" "length g = 32"
  then have "take 8 h = take 8 g" "take 4 (drop 8 h) = take 4 (drop 8 g)"
    "take 4 (drop 12 h) = take 4 (drop 12 g)" "take 4 (drop 16 h) = take 4 (drop 16 g)"
    "drop 20 h = drop 20 g" by simp_all
  then show ?thesis by (metis parts)
qed

lemma uuid_str_inj: "valid_uuid a \<Longrightarrow> valid_uuid b \<Longrightarrow> uuid_str a = uuid_str b \<Longrightarrow> a = b"
  using append_split [of "hex_str 32 a" "hex_str 32 b"] hex_str_inj [of a 32 b]
  by (simp add: uuid_str_def valid_uuid_def Let_def)

section \<open>Runs\<close>

text \<open>What preserves an invariant step by step keeps it for ever.\<close>

locale keeper =
  fixes inv :: "'s \<Rightarrow> bool" and step :: "'s \<Rightarrow> 's \<Rightarrow> bool"
  assumes step_keeps: "step s s' \<Longrightarrow> inv s \<Longrightarrow> inv s'"
begin

lemma run_keeps: "step\<^sup>*\<^sup>* s s' \<Longrightarrow> inv s \<Longrightarrow> inv s'"
  by (induction rule: rtranclp_induct) (auto intro: step_keeps)

end

end
