(* ===== verification/Delivery.thy ===== *)
theory Delivery
  imports Prelude
begin

text \<open>
  What one report means before and after it travels: the per-result limits the
  agent applies (\<^verbatim>\<open>agent/result_limits.py\<close>) and the classification of the server's
  answer to a report (\<^verbatim>\<open>agent/dead_letter.py\<close>).
\<close>

section \<open>Fitting a result to the server's limits\<close>

definition MAX_ERROR_CHARS :: nat where "MAX_ERROR_CHARS = 4000"
definition MAX_RESPONSE_DATA_CHARS :: nat where "MAX_RESPONSE_DATA_CHARS = 65535"
definition HTTP_STATUS_MIN :: int where "HTTP_STATUS_MIN = 100"
definition HTTP_STATUS_MAX :: int where "HTTP_STATUS_MAX = 599"
definition TRUNCATED_MARKER :: string where "TRUNCATED_MARKER = ''... [truncated]''"

definition truncate_text :: "string \<Rightarrow> nat \<Rightarrow> string" where
  "truncate_text t limit =
     (if length t \<le> limit then t
      else take (limit - length TRUNCATED_MARKER) t @ TRUNCATED_MARKER)"

definition fit_text :: "string \<Rightarrow> nat \<Rightarrow> dict \<Rightarrow> dict" where
  "fit_text key limit result =
     (case dict_get result key of
        Some (JStr t) \<Rightarrow> dict_set key (JStr (truncate_text t limit)) result
      | _ \<Rightarrow> result)"

definition fit_status :: "dict \<Rightarrow> dict" where
  "fit_status result =
     (case dict_get result ''http_status_code'' of
        None \<Rightarrow> result
      | Some status \<Rightarrow>
          (case py_int status of
             None \<Rightarrow> result
           | Some n \<Rightarrow>
               if HTTP_STATUS_MIN \<le> n \<and> n \<le> HTTP_STATUS_MAX then result
               else
                 let r = dict_set ''http_status_code'' JNull result;
                     metrics = (case dict_get r ''metrics'' of
                                  Some (JDict m) \<Rightarrow> m | _ \<Rightarrow> [])
                 in dict_set ''metrics''
                      (JDict (dict_set ''http_status_code_raw'' status metrics)) r))"

definition fit_result :: "dict \<Rightarrow> dict" where
  "fit_result result =
     fit_status
       (fit_text ''response_data'' MAX_RESPONSE_DATA_CHARS
         (fit_text ''error'' MAX_ERROR_CHARS result))"

text \<open>What the server's schema accepts of the fields concerned
  (\<^verbatim>\<open>CheckResultCreate\<close>): bounded texts, and a status that is an HTTP code or null.\<close>

definition within_limits :: "dict \<Rightarrow> bool" where
  "within_limits r \<longleftrightarrow>
     (\<forall>t. dict_get r ''error'' = Some (JStr t) \<longrightarrow> length t \<le> MAX_ERROR_CHARS) \<and>
     (\<forall>t. dict_get r ''response_data'' = Some (JStr t)
          \<longrightarrow> length t \<le> MAX_RESPONSE_DATA_CHARS) \<and>
     (\<forall>j n. dict_get r ''http_status_code'' = Some j \<longrightarrow> py_int j = Some n
          \<longrightarrow> HTTP_STATUS_MIN \<le> n \<and> n \<le> HTTP_STATUS_MAX)"

lemmas limit_defs =
  MAX_ERROR_CHARS_def MAX_RESPONSE_DATA_CHARS_def TRUNCATED_MARKER_def
  HTTP_STATUS_MIN_def HTTP_STATUS_MAX_def

lemma length_truncate_text:
  "length TRUNCATED_MARKER \<le> limit \<Longrightarrow> length (truncate_text t limit) \<le> limit"
  by (simp add: truncate_text_def)

lemma truncate_text_fits [simp]: "length t \<le> limit \<Longrightarrow> truncate_text t limit = t"
  by (simp add: truncate_text_def)

lemma fit_text_get_other [simp]:
  "k \<noteq> key \<Longrightarrow> dict_get (fit_text key limit r) k = dict_get r k"
  by (simp add: fit_text_def split: option.splits json.splits)

lemma fit_text_get_same:
  "dict_get (fit_text key limit r) key =
     (case dict_get r key of Some (JStr t) \<Rightarrow> Some (JStr (truncate_text t limit)) | x \<Rightarrow> x)"
  by (simp add: fit_text_def split: option.splits json.splits)

lemma fit_status_get_other [simp]:
  "k \<noteq> ''http_status_code'' \<Longrightarrow> k \<noteq> ''metrics'' \<Longrightarrow> dict_get (fit_status r) k = dict_get r k"
  by (simp add: fit_status_def Let_def split: option.splits)

lemma fit_status_get_status:
  "dict_get (fit_status r) ''http_status_code'' =
     (case dict_get r ''http_status_code'' of
        None \<Rightarrow> None
      | Some j \<Rightarrow> (case py_int j of
            None \<Rightarrow> Some j
          | Some n \<Rightarrow> Some (if HTTP_STATUS_MIN \<le> n \<and> n \<le> HTTP_STATUS_MAX then j else JNull)))"
  by (simp add: fit_status_def Let_def split: option.splits)

lemma fit_result_within_limits: "within_limits (fit_result r)"
proof -
  have "length (truncate_text t MAX_ERROR_CHARS) \<le> MAX_ERROR_CHARS"
    and "length (truncate_text t MAX_RESPONSE_DATA_CHARS) \<le> MAX_RESPONSE_DATA_CHARS" for t
    by (rule length_truncate_text, simp add: limit_defs)+
  then show ?thesis
    by (auto simp: within_limits_def fit_result_def fit_text_get_same fit_status_get_status
        split: option.splits json.splits if_splits)
qed

lemma fit_text_id:
  "(\<And>t. dict_get r key = Some (JStr t) \<Longrightarrow> length t \<le> limit) \<Longrightarrow> fit_text key limit r = r"
  by (auto simp: fit_text_def update_triv split: option.splits json.splits)

lemma fit_status_id:
  "(\<And>j n. dict_get r ''http_status_code'' = Some j \<Longrightarrow> py_int j = Some n
      \<Longrightarrow> HTTP_STATUS_MIN \<le> n \<and> n \<le> HTTP_STATUS_MAX) \<Longrightarrow> fit_status r = r"
  by (auto simp: fit_status_def split: option.splits)

lemma fit_result_id: "within_limits r \<Longrightarrow> fit_result r = r"
  by (simp add: within_limits_def fit_result_def fit_text_id fit_status_id)

section \<open>Delivery outcomes\<close>

datatype Delivery = SENT | PERMANENT | TOO_LARGE | TRANSIENT

definition MAX_DETAIL_CHARS :: nat where "MAX_DETAIL_CHARS = 2048"
definition PERMANENT_STATUSES :: "int list" where "PERMANENT_STATUSES = [400, 422]"
definition PAYLOAD_ERROR_CODES :: "string list" where
  "PAYLOAD_ERROR_CODES = [''VALIDATION_ERROR'', ''BAD_REQUEST'']"

text \<open>\<open>json_loads\<close> is \<^verbatim>\<open>json.loads\<close>: \<open>None\<close> is its \<^verbatim>\<open>ValueError\<close>.\<close>

definition is_payload_refusal :: "(string \<Rightarrow> json option) \<Rightarrow> string \<Rightarrow> bool" where
  "is_payload_refusal json_loads body =
     (case json_loads body of
        Some (JDict envelope) \<Rightarrow>
          (case dict_get envelope ''error'' of
             Some (JStr e) \<Rightarrow> e \<in> set PAYLOAD_ERROR_CODES | _ \<Rightarrow> False)
      | _ \<Rightarrow> False)"

definition classify_response :: "(string \<Rightarrow> json option) \<Rightarrow> int \<Rightarrow> string \<Rightarrow> Delivery" where
  "classify_response json_loads status_code body =
     (if 200 \<le> status_code \<and> status_code < 300 then SENT
      else if status_code = 413 then TOO_LARGE
      else if status_code \<in> set PERMANENT_STATUSES \<and> is_payload_refusal json_loads body
      then PERMANENT
      else TRANSIENT)"

definition error_detail :: "(string \<Rightarrow> string) \<Rightarrow> string \<Rightarrow> string" where
  "error_detail scrub_text body = take MAX_DETAIL_CHARS (scrub_text body)"

lemma classify_SENT_iff [simp]:
  "classify_response jl sc b = SENT \<longleftrightarrow> 200 \<le> sc \<and> sc < 300"
  by (simp add: classify_response_def)

lemma classify_PERMANENT_iff:
  "classify_response jl sc b = PERMANENT \<longleftrightarrow>
     sc \<in> {400, 422} \<and> is_payload_refusal jl b"
  by (auto simp: classify_response_def PERMANENT_STATUSES_def)

end
