(* ===== verification/Reporter.thy ===== *)
theory Reporter
  imports Delivery "HOL-Library.Sublist"
begin

text \<open>
  The agent's result reporter (\<^verbatim>\<open>agent/reporter.py\<close>): the in-memory batch, the
  POST with its retries, the split of an oversized batch, the SQLite tables of
  pending batches and dead letters, and their replay.

  What the code does not decide itself comes from a \<open>world\<close>: the server's answer
  to each POST, whether \<^verbatim>\<open>stop()\<close> ran on another task during an await, whether an
  SQLite transaction succeeds, the clock. Every read of the world advances
  \<open>tick\<close>, so an arbitrary world is an arbitrary sequence of outcomes.

  Two history variables record what leaves the agent: \<open>delivered\<close>, the results the
  server acknowledged, and \<open>discarded\<close>, those given up (a full queue, a full
  table, storage off or failing). No operation reads them.
\<close>

section \<open>World, configuration and state\<close>

datatype http_reply = RequestError | HttpReply int string

record world =
  replies :: "nat \<Rightarrow> http_reply"
  stops :: "nat \<Rightarrow> bool"
  db_up :: "nat \<Rightarrow> bool"
  clock :: "nat \<Rightarrow> instant"
  json_loads :: "string \<Rightarrow> json option"
  scrub_text :: "string \<Rightarrow> string"

record config =
  agent_id :: string
  max_retries :: nat
  batch_size :: nat
  report_interval :: instant
  max_queue_size :: int
  max_files_per_batch :: nat
  max_stored_batches :: nat
  max_dead_letters :: nat
  enable_local_storage :: bool

text \<open>A payload column: the gzipped JSON of a list of results, or bytes that do
  not decode.\<close>

datatype blob = Gzip "dict list" | Corrupt

fun unpack :: "blob \<Rightarrow> dict list" where
  "unpack (Gzip rs) = rs"
| "unpack Corrupt = []"

record pending_row =
  p_id :: nat
  p_agent_id :: string
  p_created_at :: instant
  p_batch_size :: nat
  p_payload :: blob

record dead_row =
  d_id :: nat
  d_created_at :: instant
  d_failed_at :: instant
  d_status_code :: int
  d_response_body :: string
  d_batch_size :: nat
  d_payload :: blob

record StoredBatch =
  row_id :: nat
  created_at :: instant
  checks :: "dict list"

record reporter =
  running :: bool
  client :: bool
  db_initialized :: bool
  current_batch :: "dict list"
  last_sent_time :: instant
  flush_event :: bool
  pending :: "pending_row list"
  next_pending_id :: nat
  dead_letters :: "dead_row list"
  next_dead_id :: nat
  size_held :: "nat list"
  batches_sent :: nat
  results_sent :: nat
  send_failures :: nat
  dropped_results :: nat
  flush_count :: nat
  last_batch_size :: nat
  max_batch_size :: nat
  last_backlog :: nat
  tick :: nat
  delivered :: "dict list"
  discarded :: "dict list"

definition init_reporter :: "nat \<Rightarrow> reporter" where
  "init_reporter t = \<lparr>running = False, client = False, db_initialized = False,
     current_batch = [], last_sent_time = 0, flush_event = False, pending = [],
     next_pending_id = 1, dead_letters = [], next_dead_id = 1, size_held = [],
     batches_sent = 0, results_sent = 0, send_failures = 0, dropped_results = 0,
     flush_count = 0, last_batch_size = 0, max_batch_size = 0, last_backlog = 0,
     tick = t, delivered = [], discarded = []\<rparr>"

text \<open>An await suspends the task; \<^verbatim>\<open>stop()\<close> may run meanwhile and clear \<open>running\<close>.\<close>

definition await :: "world \<Rightarrow> reporter \<Rightarrow> reporter" where
  "await w s = s\<lparr>running := running s \<and> \<not> stops w (tick s), tick := Suc (tick s)\<rparr>"

definition stopped :: "reporter \<Rightarrow> bool" where
  "stopped s = (\<not> running s)"

definition start :: "world \<Rightarrow> config \<Rightarrow> reporter \<Rightarrow> reporter" where
  "start w c s =
     (if running s then s
      else s\<lparr>running := True, last_sent_time := clock w (tick s), client := True,
             db_initialized := db_initialized s \<or> enable_local_storage c,
             tick := Suc (tick s)\<rparr>)"

section \<open>Adding a result\<close>

definition add_result :: "world \<Rightarrow> config \<Rightarrow> dict \<Rightarrow> reporter \<Rightarrow> reporter" where
  "add_result w c result s0 =
     (let s = start w c s0;
          r = fit_result result;
          n = length (current_batch s);
          over = max_queue_size c \<le> int n;
          kept = (if over then py_from (- (max_queue_size c - 1)) (current_batch s)
                  else current_batch s);
          batch = kept @ [r]
      in s\<lparr>current_batch := batch,
           dropped_results := dropped_results s + (if over then 1 else 0),
           discarded := discarded s @ take (n - length kept) (current_batch s),
           max_batch_size := max (max_batch_size s) n,
           last_backlog := n,
           flush_event := flush_event s \<or> batch_size c \<le> length batch\<rparr>)"

section \<open>Posting a batch\<close>

definition note_sent :: "world \<Rightarrow> dict list \<Rightarrow> reporter \<Rightarrow> reporter" where
  "note_sent w batch s =
     s\<lparr>last_sent_time := clock w (tick s), tick := Suc (tick s),
       batches_sent := Suc (batches_sent s),
       results_sent := results_sent s + length batch,
       last_batch_size := length batch,
       delivered := delivered s @ batch\<rparr>"

definition note_failure :: "reporter \<Rightarrow> reporter" where
  "note_failure s = s\<lparr>send_failures := Suc (send_failures s)\<rparr>"

text \<open>One attempt: the client is opened if need be (a missing client after
  \<^verbatim>\<open>start()\<close> is the failed assertion, handled as any error), then the answer.\<close>

definition attempt_post :: "world \<Rightarrow> config \<Rightarrow> reporter \<Rightarrow> http_reply \<times> reporter" where
  "attempt_post w c s =
     (let s1 = (if client s then s else start w c s)
      in if client s1 then (replies w (tick s1), await w s1) else (RequestError, s1))"

fun post_loop :: "world \<Rightarrow> config \<Rightarrow> dict list \<Rightarrow> nat \<Rightarrow> int option \<Rightarrow> string \<Rightarrow> reporter
    \<Rightarrow> (Delivery \<times> int option \<times> string) \<times> reporter" where
  "post_loop w c batch 0 sc detail s = ((TRANSIENT, sc, detail), s)"
| "post_loop w c batch (Suc attempts) sc detail s =
     (if stopped s then ((TRANSIENT, sc, detail), s)
      else case attempt_post w c s of
        (RequestError, s1) \<Rightarrow>
          (let s2 = note_failure s1
           in if stopped s2 then ((TRANSIENT, None, []), s2)
              else post_loop w c batch attempts None [] (await w s2))
      | (HttpReply code body, s1) \<Rightarrow>
          (case classify_response (json_loads w) code body of
             SENT \<Rightarrow> ((SENT, Some code, []), note_sent w batch s1)
           | TOO_LARGE \<Rightarrow> ((TOO_LARGE, Some code, error_detail (scrub_text w) body), s1)
           | PERMANENT \<Rightarrow>
               ((PERMANENT, Some code, error_detail (scrub_text w) body), note_failure s1)
           | TRANSIENT \<Rightarrow>
               (let s2 = note_failure s1; d = error_detail (scrub_text w) body
                in if stopped s2 then ((TRANSIENT, Some code, d), s2)
                   else post_loop w c batch attempts (Some code) d (await w s2))))"

definition post_batch :: "world \<Rightarrow> config \<Rightarrow> dict list \<Rightarrow> reporter
    \<Rightarrow> (Delivery \<times> int option \<times> string) \<times> reporter" where
  "post_batch w c batch s = post_loop w c batch (max_retries c) None [] s"

section \<open>The SQLite tables\<close>

definition insert_pending :: "world \<Rightarrow> config \<Rightarrow> dict list \<Rightarrow> reporter \<Rightarrow> reporter" where
  "insert_pending w c batch s =
     s\<lparr>pending := pending s @
         [\<lparr>p_id = next_pending_id s, p_agent_id = agent_id c,
           p_created_at = clock w (tick s), p_batch_size = length batch,
           p_payload = Gzip batch\<rparr>],
       next_pending_id := Suc (next_pending_id s), tick := Suc (tick s)\<rparr>"

definition unpack_all :: "('r \<Rightarrow> blob) \<Rightarrow> 'r list \<Rightarrow> dict list" where
  "unpack_all payload rows = concat (map (\<lambda>r. unpack (payload r)) rows)"

text \<open>Two transactions: the insert, then the prune when the table is over its cap.
  An exception in either is logged by the caller and goes no further.\<close>

definition prune_pending :: "nat \<Rightarrow> reporter \<Rightarrow> reporter" where
  "prune_pending excess s =
     s\<lparr>pending := prune_first p_id p_created_at excess (pending s),
       discarded := discarded s @
         unpack_all p_payload (first_by p_created_at excess (pending s))\<rparr>"

definition store_batch_to_db_sync :: "world \<Rightarrow> config \<Rightarrow> dict list \<Rightarrow> reporter \<Rightarrow> reporter" where
  "store_batch_to_db_sync w c batch s =
     (if \<not> db_up w (tick s)
      then s\<lparr>tick := Suc (tick s), discarded := discarded s @ batch\<rparr>
      else
        let s1 = insert_pending w c batch (s\<lparr>tick := Suc (tick s)\<rparr>);
            total = length (pending s1)
        in if max_stored_batches c < total
           then (if db_up w (tick s1)
                 then prune_pending (total - max_stored_batches c) (s1\<lparr>tick := Suc (tick s1)\<rparr>)
                 else s1\<lparr>tick := Suc (tick s1)\<rparr>)
           else s1)"

definition store_batch_to_db :: "world \<Rightarrow> config \<Rightarrow> dict list \<Rightarrow> reporter \<Rightarrow> reporter" where
  "store_batch_to_db w c batch s =
     (if \<not> enable_local_storage c then s\<lparr>discarded := discarded s @ batch\<rparr>
      else await w (store_batch_to_db_sync w c batch s))"

definition insert_dead_letter ::
    "instant \<Rightarrow> instant \<Rightarrow> int \<Rightarrow> string \<Rightarrow> nat \<Rightarrow> blob \<Rightarrow> reporter \<Rightarrow> reporter" where
  "insert_dead_letter created failed status detail n payload s =
     s\<lparr>dead_letters := dead_letters s @
         [\<lparr>d_id = next_dead_id s, d_created_at = created, d_failed_at = failed,
           d_status_code = status, d_response_body = detail, d_batch_size = n,
           d_payload = payload\<rparr>],
       next_dead_id := Suc (next_dead_id s)\<rparr>"

definition prune_dead_letters :: "nat \<Rightarrow> reporter \<Rightarrow> reporter" where
  "prune_dead_letters cap s =
     (let excess = length (dead_letters s) - cap
      in s\<lparr>dead_letters := prune_first d_id d_id excess (dead_letters s),
           discarded := discarded s @
             unpack_all d_payload (first_by d_id excess (dead_letters s))\<rparr>)"

definition dead_letter_batch_sync :: "world \<Rightarrow> config \<Rightarrow> dict list \<Rightarrow> int \<Rightarrow> string
    \<Rightarrow> instant option \<Rightarrow> reporter \<Rightarrow> reporter" where
  "dead_letter_batch_sync w c batch status detail created s =
     (let now = clock w (tick s); s1 = s\<lparr>tick := Suc (tick s)\<rparr>
      in if \<not> db_up w (tick s)
         then s1\<lparr>discarded := discarded s1 @ batch\<rparr>
         else prune_dead_letters (max_dead_letters c)
                (insert_dead_letter (case created of None \<Rightarrow> now | Some t \<Rightarrow> t) now status
                   detail (length batch) (Gzip batch) s1))"

definition dead_letter_batch :: "world \<Rightarrow> config \<Rightarrow> dict list \<Rightarrow> int \<Rightarrow> string
    \<Rightarrow> instant option \<Rightarrow> reporter \<Rightarrow> reporter" where
  "dead_letter_batch w c batch status detail created s =
     (if \<not> enable_local_storage c then s\<lparr>discarded := discarded s @ batch\<rparr>
      else await w (dead_letter_batch_sync w c batch status detail created s))"

section \<open>Sending an oversized batch in parts\<close>

definition halves :: "'a list \<Rightarrow> 'a list list" where
  "halves batch = [take (length batch div 2) batch, drop (length batch div 2) batch]"

record parts =
  work :: "dict list list"
  untried :: "dict list"
  refused :: "dict list"
  sent_count :: nat
  stop_at :: "Delivery option"
  permanent :: bool

text \<open>The body of the loop for the part just taken off the work list.\<close>

definition parts_body :: "world \<Rightarrow> config \<Rightarrow> instant option \<Rightarrow> dict list \<Rightarrow> parts \<Rightarrow> reporter
    \<Rightarrow> parts \<times> reporter" where
  "parts_body w c created part p s =
     (if stop_at p \<noteq> None then (p\<lparr>untried := untried p @ part\<rparr>, s)
      else case post_batch w c part s of
        ((SENT, _, _), s1) \<Rightarrow> (p\<lparr>sent_count := sent_count p + length part\<rparr>, s1)
      | ((PERMANENT, Some code, detail), s1) \<Rightarrow>
          (p\<lparr>permanent := True\<rparr>, dead_letter_batch w c part code detail created s1)
      | ((TOO_LARGE, _, _), s1) \<Rightarrow>
          (if 1 < length part then (p\<lparr>work := halves part @ work p\<rparr>, s1)
           else (p\<lparr>refused := refused p @ part,
                   stop_at := (if 2 \<le> length (refused p @ part) \<and> sent_count p = 0
                               then Some TOO_LARGE else None)\<rparr>, s1))
      | (_, s1) \<Rightarrow> (p\<lparr>untried := untried p @ part, stop_at := Some TRANSIENT\<rparr>, s1))"

text \<open>The loop ends: halving a part of two or more results lowers the sum of
  \<open>2 * length - 1\<close> over the work list, and any other part leaves the list.\<close>

definition work_weight :: "'a list list \<Rightarrow> nat" where
  "work_weight ps = (\<Sum>p\<leftarrow>ps. 2 * length p - 1)"

lemma halves_weight:
  "1 < length part \<Longrightarrow> work_weight (halves part @ ps) < work_weight (part # ps)"
  by (simp add: work_weight_def halves_def min_def) arith

lemma parts_body_work:
  "work (fst (parts_body w c created part p s)) = work p \<or>
   1 < length part \<and> work (fst (parts_body w c created part p s)) = halves part @ work p"
  by (auto simp: parts_body_def split: prod.splits Delivery.splits option.splits)

function parts_loop :: "world \<Rightarrow> config \<Rightarrow> instant option \<Rightarrow> parts \<Rightarrow> reporter \<Rightarrow> parts \<times> reporter"
where
  "parts_loop w c created p s =
     (case work p of
        [] \<Rightarrow> (p, s)
      | part # rest \<Rightarrow>
          parts_loop w c created
            (fst (parts_body w c created part (p\<lparr>work := rest\<rparr>) s))
            (snd (parts_body w c created part (p\<lparr>work := rest\<rparr>) s)))"
  by pat_completeness auto

termination
proof (relation "measures [\<lambda>(w, c, cr, p, s). work_weight (work p),
                           \<lambda>(w, c, cr, p, s). length (work p)]", goal_cases)
  case 1
  show ?case by simp
next
  case (2 w c created p s part rest)
  have "work_weight rest \<le> work_weight (part # rest)"
    by (simp add: work_weight_def)
  with 2 show ?case
    using parts_body_work [of w c created part "p\<lparr>work := rest\<rparr>" s] halves_weight [of part rest]
    by (auto simp: le_less case_prod_beta)
qed

declare parts_loop.simps [simp del]

definition send_in_parts :: "world \<Rightarrow> config \<Rightarrow> dict list \<Rightarrow> instant option \<Rightarrow> reporter
    \<Rightarrow> (Delivery \<times> dict list) \<times> reporter" where
  "send_in_parts w c batch created s =
     (if length batch = 1 then ((TOO_LARGE, batch), s)
      else case parts_loop w c created
                  \<lparr>work = halves batch, untried = [], refused = [], sent_count = 0,
                   stop_at = None, permanent = False\<rparr> s of
        (p, s1) \<Rightarrow>
          (let unsent = untried p @ refused p
           in ((if stop_at p = Some TRANSIENT then TRANSIENT
                else if unsent \<noteq> [] then TOO_LARGE
                else if permanent p then PERMANENT else SENT, unsent), s1)))"

section \<open>Delivering, flushing, stopping\<close>

definition deliver :: "world \<Rightarrow> config \<Rightarrow> dict list \<Rightarrow> reporter \<Rightarrow> Delivery \<times> reporter" where
  "deliver w c batch s =
     (case post_batch w c batch s of
        ((SENT, _, _), s1) \<Rightarrow> (SENT, s1)
      | ((PERMANENT, Some code, detail), s1) \<Rightarrow>
          (PERMANENT, dead_letter_batch w c batch code detail None s1)
      | ((TOO_LARGE, _, _), s1) \<Rightarrow>
          (case send_in_parts w c batch None s1 of
             ((outcome, unsent), s2) \<Rightarrow>
               (outcome, if unsent \<noteq> [] then store_batch_to_db w c unsent s2 else s2))
      | ((outcome, _, _), s1) \<Rightarrow>
          (outcome, if batch \<noteq> [] then store_batch_to_db w c batch s1 else s1))"

definition send_batch :: "world \<Rightarrow> config \<Rightarrow> dict list \<Rightarrow> reporter \<Rightarrow> bool \<times> reporter" where
  "send_batch w c batch s =
     (if batch = [] then (True, s)
      else case deliver w c batch s of (d, s1) \<Rightarrow> (d = SENT, s1))"

definition flush :: "world \<Rightarrow> config \<Rightarrow> reporter \<Rightarrow> bool \<times> reporter" where
  "flush w c s =
     (if current_batch s = [] then (True, s)
      else send_batch w c (current_batch s) (s\<lparr>current_batch := []\<rparr>))"

definition stop :: "world \<Rightarrow> config \<Rightarrow> reporter \<Rightarrow> reporter" where
  "stop w c s =
     (if \<not> running s then s
      else
        let s1 = s\<lparr>running := False, flush_event := True\<rparr>;
            s2 = (if current_batch s1 \<noteq> [] then snd (flush w c s1) else s1)
        in s2\<lparr>client := False\<rparr>)"

text \<open>One round of the batch processor: wake on the flush event or on the timeout,
  flush when the batch is full or the interval is over.\<close>

definition batch_processor_round :: "world \<Rightarrow> config \<Rightarrow> reporter \<Rightarrow> reporter" where
  "batch_processor_round w c s0 =
     (let s = await w (s0\<lparr>flush_event := False\<rparr>);
          since = clock w (tick s) - last_sent_time s;
          n = length (current_batch s)
      in if batch_size c \<le> n \<or> (0 < n \<and> report_interval c \<le> since)
         then (snd (flush w c (s\<lparr>tick := Suc (tick s)\<rparr>)))
                \<lparr>flush_count := Suc (flush_count (snd (flush w c (s\<lparr>tick := Suc (tick s)\<rparr>))))\<rparr>
         else s\<lparr>tick := Suc (tick s)\<rparr>)"

section \<open>The accounting of results\<close>

text \<open>\<open>accounted s\<close> counts every result the agent has taken, wherever it is now.\<close>

definition accounted :: "reporter \<Rightarrow> dict multiset" where
  "accounted s =
     mset (current_batch s) + mset (unpack_all p_payload (pending s)) +
     mset (unpack_all d_payload (dead_letters s)) + mset (delivered s) + mset (discarded s)"

text \<open>The tables' ids are primary keys handed out in increasing order.\<close>

definition tables_ok :: "reporter \<Rightarrow> bool" where
  "tables_ok s \<longleftrightarrow>
     distinct (map p_id (pending s)) \<and> (\<forall>r\<in>set (pending s). p_id r < next_pending_id s) \<and>
     distinct (map d_id (dead_letters s)) \<and> (\<forall>r\<in>set (dead_letters s). d_id r < next_dead_id s)"

definition caps_ok :: "config \<Rightarrow> reporter \<Rightarrow> bool" where
  "caps_ok c s \<longleftrightarrow> length (pending s) \<le> max_stored_batches c \<and>
     length (dead_letters s) \<le> max_dead_letters c"

lemma unpack_all_simps [simp]:
  "unpack_all f [] = []"
  "unpack_all f (rows @ rows') = unpack_all f rows @ unpack_all f rows'"
  "unpack_all f (r # rows) = unpack (f r) @ unpack_all f rows"
  by (simp_all add: unpack_all_def)

lemma mset_unpack_all:
  "mset (unpack_all f rows) = (\<Sum>r\<in>#mset rows. mset (unpack (f r)))"
  by (induction rows) simp_all

lemma unpack_prune_first:
  assumes "distinct (map rid rows)"
  shows "mset (unpack_all f rows) =
    mset (unpack_all f (first_by key n rows)) + mset (unpack_all f (prune_first rid key n rows))"
  by (simp only: mset_unpack_all mset_prune_first [OF assms, of key n] image_mset_union sum_mset.union)

lemma tables_ok_distinct:
  assumes "tables_ok s"
  shows "distinct (map p_id (pending s))" "distinct (map d_id (dead_letters s))"
  using assms by (simp_all add: tables_ok_def)

subsection \<open>Operations outside the tables\<close>

text \<open>The part of the state a POST and an await leave alone.\<close>

definition same_store :: "reporter \<Rightarrow> reporter \<Rightarrow> bool" where
  "same_store s s' \<longleftrightarrow> pending s' = pending s \<and> next_pending_id s' = next_pending_id s \<and>
     dead_letters s' = dead_letters s \<and> next_dead_id s' = next_dead_id s \<and>
     discarded s' = discarded s \<and> size_held s' = size_held s \<and>
     current_batch s' = current_batch s"

lemma same_store_refl [simp]: "same_store s s"
  by (simp add: same_store_def)

lemma same_store_trans: "same_store s s' \<Longrightarrow> same_store s' s'' \<Longrightarrow> same_store s s''"
  by (simp add: same_store_def)

lemma same_store_steps [simp]:
  "same_store s (await w s')  = same_store s s'"
  "same_store s (note_failure s') = same_store s s'"
  "same_store s (note_sent w b s') = same_store s s'"
  "same_store s (start w c s') = same_store s s'"
  "same_store (await w s) s'  = same_store s s'"
  "same_store (note_failure s) s' = same_store s s'"
  by (simp_all add: same_store_def await_def note_failure_def note_sent_def start_def)

lemma delivered_steps [simp]:
  "delivered (await w s) = delivered s"
  "delivered (note_failure s) = delivered s"
  "delivered (note_sent w b s) = delivered s @ b"
  "delivered (start w c s) = delivered s"
  by (simp_all add: await_def note_failure_def note_sent_def start_def)

lemma same_store_accounted:
  "same_store s s' \<Longrightarrow> delivered s' = delivered s @ b \<Longrightarrow> accounted s' = accounted s + mset b"
  by (simp add: same_store_def accounted_def)

lemma same_store_tables: "same_store s s' \<Longrightarrow> tables_ok s' = tables_ok s"
  by (simp add: same_store_def tables_ok_def)

lemma attempt_post_frame:
  "attempt_post w c s = (a, s') \<Longrightarrow> same_store s s' \<and> delivered s' = delivered s"
  by (auto simp: attempt_post_def Let_def split: if_splits)

lemma post_loop_frame:
  "post_loop w c b n sc d s = ((out, sc', d'), s') \<Longrightarrow>
     same_store s s' \<and> delivered s' = delivered s @ (if out = SENT then b else []) \<and>
     (out \<noteq> TRANSIENT \<longrightarrow> sc' \<noteq> None)"
proof (induction w c b n sc d s arbitrary: out sc' d' s' rule: post_loop.induct)
  case (1 w c b sc d s)
  then show ?case by auto
next
  case (2 w c b n sc d s)
  show ?case
  proof (cases "stopped s")
    case True
    with "2.prems" show ?thesis by auto
  next
    case run: False
    obtain a s1 where a: "attempt_post w c s = (a, s1)" by force
    note f = attempt_post_frame [OF a]
    show ?thesis
    proof (cases a)
      case RequestError
      show ?thesis
      proof (cases "stopped (note_failure s1)")
        case True
        with run a f "2.prems" RequestError show ?thesis by (auto simp: Let_def)
      next
        case False
        with run a "2.prems" RequestError
        have "post_loop w c b n None [] (await w (note_failure s1)) = ((out, sc', d'), s')"
          by (simp add: Let_def)
        from "2.IH"(1) [OF run a [symmetric] RequestError refl False this] f
        show ?thesis by (auto intro: same_store_trans)
      qed
    next
      case (HttpReply code body)
      show ?thesis
      proof (cases "classify_response (json_loads w) code body = TRANSIENT
          \<and> \<not> stopped (note_failure s1)")
        case True
        with run a "2.prems" HttpReply
        have "post_loop w c b n (Some code) (error_detail (scrub_text w) body)
            (await w (note_failure s1)) = ((out, sc', d'), s')"
          by (simp add: Let_def)
        from "2.IH"(2) [OF run a [symmetric] HttpReply _ refl refl _ this] True f
        show ?thesis by (auto intro: same_store_trans)
      next
        case False
        with run a f "2.prems" HttpReply show ?thesis
          by (auto simp: Let_def split: Delivery.splits if_splits)
      qed
    qed
  qed
qed

lemma post_batch_frame:
  "post_batch w c b s = ((out, sc, d), s') \<Longrightarrow>
     same_store s s' \<and> delivered s' = delivered s @ (if out = SENT then b else []) \<and>
     (out \<noteq> TRANSIENT \<longrightarrow> sc \<noteq> None)"
  unfolding post_batch_def by (rule post_loop_frame)

subsection \<open>Operations on the tables\<close>

lemma accounted_tick [simp]: "accounted (s\<lparr>tick := n\<rparr>) = accounted s"
  by (simp add: accounted_def)

lemma accounted_await [simp]: "accounted (await w s) = accounted s"
  by (simp add: accounted_def await_def)

lemma accounted_discard [simp]:
  "accounted (s\<lparr>discarded := discarded s @ b\<rparr>) = accounted s + mset b"
  by (simp add: accounted_def)

lemma tables_ok_await [simp]:
  "tables_ok (await w s) = tables_ok s"
  "tables_ok (s\<lparr>tick := n\<rparr>) = tables_ok s"
  "tables_ok (s\<lparr>discarded := b\<rparr>) = tables_ok s"
  "tables_ok (s\<lparr>tick := n, discarded := b\<rparr>) = tables_ok s"
  by (simp_all add: tables_ok_def await_def)

lemma insert_pending_facts:
  "accounted (insert_pending w c b s) = accounted s + mset b"
  "tables_ok s \<Longrightarrow> tables_ok (insert_pending w c b s)"
  by (auto simp: insert_pending_def accounted_def tables_ok_def)

lemma prune_pending_facts:
  assumes "tables_ok s"
  shows "accounted (prune_pending n s) = accounted s" "tables_ok (prune_pending n s)"
    "length (pending (prune_pending n s)) = length (pending s) - n"
  using assms set_prune_first_subset [of p_id p_created_at n "pending s"]
    unpack_prune_first [of p_id "pending s" p_payload p_created_at n]
  by (auto simp: prune_pending_def accounted_def tables_ok_def distinct_prune_first
      length_prune_first)

lemma insert_dead_letter_facts:
  "accounted (insert_dead_letter cr f st d n p s) = accounted s + mset (unpack p)"
  "tables_ok s \<Longrightarrow> tables_ok (insert_dead_letter cr f st d n p s)"
  by (auto simp: insert_dead_letter_def accounted_def tables_ok_def)

lemma prune_dead_letters_facts:
  assumes "tables_ok s"
  shows "accounted (prune_dead_letters cap s) = accounted s"
    "tables_ok (prune_dead_letters cap s)"
    "length (dead_letters (prune_dead_letters cap s)) = min cap (length (dead_letters s))"
  using assms set_prune_first_subset [of d_id d_id "length (dead_letters s) - cap" "dead_letters s"]
    unpack_prune_first [of d_id "dead_letters s" d_payload d_id "length (dead_letters s) - cap"]
  by (auto simp: prune_dead_letters_def Let_def accounted_def tables_ok_def distinct_prune_first
      length_prune_first)

lemmas table_facts = insert_pending_facts prune_pending_facts insert_dead_letter_facts
  prune_dead_letters_facts

lemma store_sync_facts:
  assumes "tables_ok s"
  shows "accounted (store_batch_to_db_sync w c b s) = accounted s + mset b"
    "tables_ok (store_batch_to_db_sync w c b s)"
proof -
  define s1 where "s1 = insert_pending w c b (s\<lparr>tick := Suc (tick s)\<rparr>)"
  have s1: "tables_ok s1" "accounted s1 = accounted s + mset b"
    using assms by (simp_all add: s1_def table_facts)
  show "accounted (store_batch_to_db_sync w c b s) = accounted s + mset b"
    using s1
    by (simp add: store_batch_to_db_sync_def Let_def s1_def [symmetric] table_facts)
      (simp add: accounted_def)
  show "tables_ok (store_batch_to_db_sync w c b s)"
    using s1 assms
    by (simp add: store_batch_to_db_sync_def Let_def s1_def [symmetric] table_facts)
qed

lemma store_facts:
  assumes "tables_ok s"
  shows "accounted (store_batch_to_db w c b s) = accounted s + mset b"
    "tables_ok (store_batch_to_db w c b s)"
  using store_sync_facts [OF assms, of w c b] assms
  by (simp_all add: store_batch_to_db_def)

lemma dead_letter_facts:
  assumes "tables_ok s"
  shows "accounted (dead_letter_batch w c b st d cr s) = accounted s + mset b"
    "tables_ok (dead_letter_batch w c b st d cr s)"
  using assms
  by (simp_all add: dead_letter_batch_def dead_letter_batch_sync_def Let_def table_facts)
    (simp add: accounted_def)

subsection \<open>The split conserves its batch\<close>

lemma post_batch_accounted:
  assumes "post_batch w c b s = ((out, sc, d), s')"
  shows "accounted s' = accounted s + (if out = SENT then mset b else {#})"
    "tables_ok s' = tables_ok s" "out \<noteq> TRANSIENT \<Longrightarrow> sc \<noteq> None"
  using post_batch_frame [OF assms] same_store_accounted [of s s'] same_store_tables [of s s']
  by auto

definition parts_total :: "parts \<Rightarrow> reporter \<Rightarrow> dict multiset" where
  "parts_total p s = accounted s + mset (concat (work p)) + mset (untried p) + mset (refused p)"

lemma concat_halves [simp]: "concat (halves b) = b"
  by (simp add: halves_def)

lemma parts_body_total:
  assumes "tables_ok s"
  shows "parts_total (fst (parts_body w c cr part p s)) (snd (parts_body w c cr part p s)) =
      parts_total p s + mset part"
    "tables_ok (snd (parts_body w c cr part p s))"
proof -
  obtain out sc d s1 where post: "post_batch w c part s = ((out, sc, d), s1)"
    by (metis prod.exhaust)
  note facts = post_batch_accounted [OF post]
  have "parts_total (fst (parts_body w c cr part p s)) (snd (parts_body w c cr part p s)) =
      parts_total p s + mset part \<and> tables_ok (snd (parts_body w c cr part p s))"
  proof (cases out)
    case PERMANENT
    with facts(3) obtain code where "sc = Some code" by auto
    with PERMANENT facts post assms show ?thesis
      by (simp add: parts_body_def parts_total_def dead_letter_facts)
  qed (use facts post assms in \<open>auto simp: parts_body_def parts_total_def
        split: option.splits\<close>)
  then show "parts_total (fst (parts_body w c cr part p s)) (snd (parts_body w c cr part p s)) =
      parts_total p s + mset part" "tables_ok (snd (parts_body w c cr part p s))"
    by auto
qed

lemma parts_loop_total:
  assumes "tables_ok s"
  shows "parts_total (fst (parts_loop w c cr p s)) (snd (parts_loop w c cr p s)) = parts_total p s
    \<and> tables_ok (snd (parts_loop w c cr p s)) \<and> work (fst (parts_loop w c cr p s)) = []"
  using assms
proof (induction w c cr p s rule: parts_loop.induct)
  case (1 w c cr p s)
  show ?case
  proof (cases "work p")
    case Nil
    with "1.prems" show ?thesis by (simp add: parts_loop.simps [of w c cr p s])
  next
    case (Cons part rest)
    let ?b = "parts_body w c cr part (p\<lparr>work := rest\<rparr>) s"
    have b: "parts_total (fst ?b) (snd ?b) = parts_total p s" "tables_ok (snd ?b)"
      using parts_body_total [OF "1.prems", of w c cr part "p\<lparr>work := rest\<rparr>"] Cons
      by (simp_all add: parts_total_def ac_simps)
    with "1.IH" [OF Cons] show ?thesis
      by (simp add: parts_loop.simps [of w c cr p s] Cons)
  qed
qed

lemma send_in_parts_total:
  assumes "tables_ok s" and "send_in_parts w c b cr s = ((out, unsent), s')"
  shows "accounted s' + mset unsent = accounted s + mset b" "tables_ok s'"
proof -
  define p0 where "p0 = \<lparr>work = halves b, untried = [], refused = [], sent_count = 0,
      stop_at = None, permanent = False\<rparr>"
  have t0: "parts_total p0 s = accounted s + mset b"
    by (simp add: p0_def parts_total_def)
  note l = parts_loop_total [OF assms(1), of w c cr p0]
  have "accounted s' + mset unsent = accounted s + mset b \<and> tables_ok s'"
  proof (cases "length b = 1")
    case True
    with assms show ?thesis by (auto simp: send_in_parts_def)
  next
    case False
    obtain p1 s1 where p1: "parts_loop w c cr p0 s = (p1, s1)" by force
    with l t0 have "accounted s1 + mset (untried p1 @ refused p1) = accounted s + mset b"
      and "tables_ok s1"
      by (auto simp: parts_total_def [of p1] ac_simps)
    with False assms(2) p1 show ?thesis
      by (auto simp: send_in_parts_def p0_def [symmetric] Let_def)
  qed
  then show "accounted s' + mset unsent = accounted s + mset b" "tables_ok s'" by auto
qed

lemma deliver_total:
  assumes "tables_ok s" and "deliver w c b s = (out, s')"
  shows "accounted s' = accounted s + mset b \<and> tables_ok s'"
proof -
  obtain out1 sc d s1 where post: "post_batch w c b s = ((out1, sc, d), s1)"
    by (metis prod.exhaust)
  note f = post_batch_accounted [OF post]
  show ?thesis
  proof (cases out1)
    case PERMANENT
    with f(3) obtain code where "sc = Some code" by auto
    with PERMANENT f post assms show ?thesis
      by (auto simp: deliver_def dead_letter_facts)
  next
    case TOO_LARGE
    obtain out2 unsent s2 where sp: "send_in_parts w c b None s1 = ((out2, unsent), s2)"
      by (metis prod.exhaust)
    from f assms(1) have "tables_ok s1" by simp
    note g = send_in_parts_total [OF this sp]
    from TOO_LARGE f g post assms sp show ?thesis
      by (auto simp: deliver_def store_facts split: if_splits)
  qed (use f post assms in \<open>auto simp: deliver_def store_facts split: if_splits\<close>)
qed

subsection \<open>Order of what is left, and what the outcome says\<close>

definition parts_ordered :: "dict list \<Rightarrow> parts \<Rightarrow> bool" where
  "parts_ordered b p \<longleftrightarrow>
     subseq (untried p @ concat (work p)) b \<and> subseq (refused p @ concat (work p)) b \<and>
     (stop_at p = None \<longrightarrow> untried p = [])"

lemma subseq_drop_middle: "subseq (xs @ ys @ zs) b \<Longrightarrow> subseq (xs @ zs) b"
proof -
  assume b: "subseq (xs @ ys @ zs) b"
  have "subseq (xs @ zs) (xs @ ys @ zs)"
    by (simp add: subseq_append' subseq_drop_many)
  with b show ?thesis by (rule subseq_order.trans [rotated])
qed

lemma parts_body_ordered:
  assumes "parts_ordered b (p\<lparr>work := part # work p\<rparr>)"
  shows "parts_ordered b (fst (parts_body w c cr part p s))"
proof -
  obtain out sc d s1 where post: "post_batch w c part s = ((out, sc, d), s1)"
    by (metis prod.exhaust)
  from assms have u: "subseq (untried p @ part @ concat (work p)) b"
    and r: "subseq (refused p @ part @ concat (work p)) b"
    and n: "stop_at p = None \<longrightarrow> untried p = []"
    by (simp_all add: parts_ordered_def)
  note du = subseq_drop_middle [OF u] and dr = subseq_drop_middle [OF r]
  show ?thesis
    using u r n du dr post
    by (cases out; cases sc) (auto simp: parts_body_def parts_ordered_def)
qed

lemma parts_loop_ordered:
  "parts_ordered b p \<Longrightarrow> parts_ordered b (fst (parts_loop w c cr p s))"
proof (induction w c cr p s rule: parts_loop.induct)
  case (1 w c cr p s)
  show ?case
  proof (cases "work p")
    case Nil
    with "1.prems" show ?thesis by (simp add: parts_loop.simps [of w c cr p s])
  next
    case (Cons part rest)
    have "parts_ordered b (fst (parts_body w c cr part (p\<lparr>work := rest\<rparr>) s))"
      using "1.prems" Cons by (intro parts_body_ordered) (simp add: parts_ordered_def)
    with "1.IH" [OF Cons] show ?thesis
      by (simp add: parts_loop.simps [of w c cr p s] Cons)
  qed
qed

text \<open>While no part was refused for good, the split touched neither table.\<close>

lemma parts_body_same_store:
  "\<not> permanent (fst (parts_body w c cr part p s)) \<Longrightarrow>
     \<not> permanent p \<and> same_store s (snd (parts_body w c cr part p s))"
proof -
  obtain out sc d s1 where post: "post_batch w c part s = ((out, sc, d), s1)"
    by (metis prod.exhaust)
  assume "\<not> permanent (fst (parts_body w c cr part p s))"
  with post post_batch_frame [OF post] show ?thesis
    by (cases out; cases sc) (auto simp: parts_body_def split: if_splits)
qed

lemma parts_loop_same_store:
  "\<not> permanent (fst (parts_loop w c cr p s)) \<Longrightarrow>
     \<not> permanent p \<and> same_store s (snd (parts_loop w c cr p s))"
proof (induction w c cr p s rule: parts_loop.induct)
  case (1 w c cr p s)
  show ?case
  proof (cases "work p")
    case Nil
    with "1.prems" show ?thesis by (simp add: parts_loop.simps [of w c cr p s])
  next
    case (Cons part rest)
    let ?b = "parts_body w c cr part (p\<lparr>work := rest\<rparr>) s"
    have step: "parts_loop w c cr p s = parts_loop w c cr (fst ?b) (snd ?b)"
      by (simp add: parts_loop.simps [of w c cr p s] Cons)
    with "1.prems" "1.IH" [OF Cons]
    have "\<not> permanent (fst ?b)" and b: "same_store (snd ?b) (snd (parts_loop w c cr p s))"
      by simp_all
    with parts_body_same_store [of w c cr part "p\<lparr>work := rest\<rparr>" s] show ?thesis
      by (auto intro: same_store_trans)
  qed
qed

lemma send_in_parts_split:
  assumes "send_in_parts w c b cr s = ((out, unsent), s')"
  shows "\<exists>xs ys. unsent = xs @ ys \<and> subseq xs b \<and> subseq ys b"
proof -
  define p0 where "p0 = \<lparr>work = halves b, untried = [], refused = [], sent_count = 0,
      stop_at = None, permanent = False\<rparr>"
  have "parts_ordered b p0"
    by (simp add: p0_def parts_ordered_def)
  then have o: "parts_ordered b (fst (parts_loop w c cr p0 s))"
    by (rule parts_loop_ordered)
  obtain p1 s1 where p1: "parts_loop w c cr p0 s = (p1, s1)" by force
  with o have "subseq (untried p1) b" "subseq (refused p1) b"
    using subseq_drop_middle [of "untried p1" "concat (work p1)" "[]" b]
      subseq_drop_middle [of "refused p1" "concat (work p1)" "[]" b]
    by (simp_all add: parts_ordered_def)
  with assms p1 show ?thesis
    by (fastforce simp: send_in_parts_def p0_def [symmetric] Let_def split: if_splits)
qed

subsection \<open>The split leaves the pending table alone and never loses ground\<close>

lemma dead_letter_pending [simp]: "pending (dead_letter_batch w c b st d cr s) = pending s"
  by (simp add: dead_letter_batch_def dead_letter_batch_sync_def Let_def await_def
      prune_dead_letters_def insert_dead_letter_def)

lemma parts_body_grows:
  assumes "tables_ok s"
  shows "pending (snd (parts_body w c cr part p s)) = pending s \<and>
    accounted s \<subseteq># accounted (snd (parts_body w c cr part p s))"
proof -
  obtain out sc d s1 where post: "post_batch w c part s = ((out, sc, d), s1)"
    by (metis prod.exhaust)
  note f = post_batch_accounted [OF post] post_batch_frame [OF post]
  then have "pending s1 = pending s" "accounted s \<subseteq># accounted s1" "tables_ok s1"
    using assms by (auto simp: same_store_def)
  with post assms show ?thesis
    by (cases out; cases sc)
      (auto simp: parts_body_def dead_letter_facts intro: subset_mset.order_trans)
qed

lemma parts_loop_grows:
  assumes "tables_ok s"
  shows "pending (snd (parts_loop w c cr p s)) = pending s \<and>
    accounted s \<subseteq># accounted (snd (parts_loop w c cr p s))"
  using assms
proof (induction w c cr p s rule: parts_loop.induct)
  case (1 w c cr p s)
  show ?case
  proof (cases "work p")
    case Nil
    then show ?thesis by (simp add: parts_loop.simps [of w c cr p s])
  next
    case (Cons part rest)
    let ?b = "parts_body w c cr part (p\<lparr>work := rest\<rparr>) s"
    have "tables_ok (snd ?b)"
      by (rule parts_body_total(2) [OF "1.prems"])
    with "1.IH" [OF Cons] parts_body_grows [OF "1.prems", of w c cr part "p\<lparr>work := rest\<rparr>"]
    show ?thesis
      by (auto simp: parts_loop.simps [of w c cr p s] Cons intro: subset_mset.order_trans)
  qed
qed

lemma send_in_parts_grows:
  assumes "tables_ok s" and "send_in_parts w c b cr s = ((out, unsent), s')"
  shows "pending s' = pending s \<and> accounted s \<subseteq># accounted s'"
proof (cases "length b = 1")
  case True
  with assms(2) show ?thesis by (simp add: send_in_parts_def)
next
  case False
  then obtain p0 p1 where "parts_loop w c cr p0 s = (p1, s')"
    using assms(2) by (auto simp: send_in_parts_def Let_def split: prod.splits)
  with parts_loop_grows [OF assms(1), of w c cr p0] show ?thesis by simp
qed

end
