(* ===== verification/Replay.thy ===== *)
theory Replay
  imports Reporter
begin

text \<open>
  Replay of the stored batches (\<^verbatim>\<open>Reporter._process_stored_reports_sync\<close> to
  \<^verbatim>\<open>process_stored_reports\<close>), and the agent's reporter as a whole: any interleaving
  of results arriving, flushes, replay passes, stops and restarts. Unlike the two
  storing operations, a replay lets an SQLite error out; the pass ends there.
\<close>

section \<open>Reading and changing the pending table\<close>

datatype exn = SQLiteError

definition read_pending :: "config \<Rightarrow> reporter \<Rightarrow> pending_row list" where
  "read_pending c s =
     first_by p_created_at (max_files_per_batch c)
       (filter (\<lambda>r. p_id r \<notin> set (size_held s)) (pending s))"

text \<open>A statement with its commit: an error leaves the tables as they were.\<close>

definition transact :: "world \<Rightarrow> (reporter \<Rightarrow> reporter) \<Rightarrow> reporter \<Rightarrow> (exn + unit) \<times> reporter" where
  "transact w f s =
     (if db_up w (tick s) then (Inr (), f (s\<lparr>tick := Suc (tick s)\<rparr>))
      else (Inl SQLiteError, s\<lparr>tick := Suc (tick s)\<rparr>))"

definition delete_row :: "nat \<Rightarrow> reporter \<Rightarrow> reporter" where
  "delete_row rid s = s\<lparr>pending := delete_ids p_id [rid] (pending s)\<rparr>"

definition rewrite_row :: "nat \<Rightarrow> dict list \<Rightarrow> reporter \<Rightarrow> reporter" where
  "rewrite_row rid cs s =
     s\<lparr>pending := map (\<lambda>r. if p_id r = rid
         then r\<lparr>p_batch_size := length cs, p_payload := Gzip cs\<rparr> else r) (pending s)\<rparr>"

definition delete_stored_batch_sync :: "world \<Rightarrow> nat \<Rightarrow> reporter \<Rightarrow> (exn + unit) \<times> reporter" where
  "delete_stored_batch_sync w rid s = transact w (delete_row rid) s"

definition rewrite_stored_batch_sync ::
    "world \<Rightarrow> nat \<Rightarrow> dict list \<Rightarrow> reporter \<Rightarrow> (exn + unit) \<times> reporter" where
  "rewrite_stored_batch_sync w rid cs s = transact w (rewrite_row rid cs) s"

text \<open>One transaction: insert the dead letter, delete the row, hold the cap.\<close>

definition move_row :: "world \<Rightarrow> config \<Rightarrow> pending_row \<Rightarrow> int \<Rightarrow> string \<Rightarrow> reporter \<Rightarrow> reporter" where
  "move_row w c r status detail s =
     prune_dead_letters (max_dead_letters c)
       (delete_row (p_id r)
         (insert_dead_letter (p_created_at r) (clock w (tick s)) status detail
            (p_batch_size r) (p_payload r) (s\<lparr>tick := Suc (tick s)\<rparr>)))"

definition move_to_dead_letters_sync ::
    "world \<Rightarrow> config \<Rightarrow> nat \<Rightarrow> int \<Rightarrow> string \<Rightarrow> reporter \<Rightarrow> (exn + unit) \<times> reporter" where
  "move_to_dead_letters_sync w c rid status detail s =
     (case find (\<lambda>r. p_id r = rid) (pending s) of
        None \<Rightarrow> (Inr (), s)
      | Some r \<Rightarrow> transact w (move_row w c r status detail) s)"

text \<open>Decoding what was read; a row that does not decode is deleted.\<close>

fun decode_rows :: "world \<Rightarrow> pending_row list \<Rightarrow> StoredBatch list \<Rightarrow> reporter
    \<Rightarrow> (exn + StoredBatch list) \<times> reporter" where
  "decode_rows w [] acc s = (Inr acc, s)"
| "decode_rows w (r # rows) acc s =
     (case p_payload r of
        Gzip cs \<Rightarrow> decode_rows w rows
          (acc @ [\<lparr>row_id = p_id r, created_at = p_created_at r, checks = cs\<rparr>]) s
      | Corrupt \<Rightarrow>
          (case delete_stored_batch_sync w (p_id r) s of
             (Inl e, s1) \<Rightarrow> (Inl e, s1)
           | (Inr _, s1) \<Rightarrow> decode_rows w rows acc s1))"

definition process_stored_reports_sync ::
    "world \<Rightarrow> config \<Rightarrow> reporter \<Rightarrow> (exn + StoredBatch list) \<times> reporter" where
  "process_stored_reports_sync w c s =
     (if read_pending c s = [] \<and> size_held s \<noteq> []
      then let s1 = s\<lparr>size_held := []\<rparr> in decode_rows w (read_pending c s1) [] s1
      else decode_rows w (read_pending c s) [] s)"

section \<open>Replaying a group\<close>

fun delete_all :: "world \<Rightarrow> StoredBatch list \<Rightarrow> reporter \<Rightarrow> (exn + unit) \<times> reporter" where
  "delete_all w [] s = (Inr (), s)"
| "delete_all w (b # bs) s =
     (case delete_stored_batch_sync w (row_id b) s of
        (Inl e, s1) \<Rightarrow> (Inl e, s1)
      | (Inr _, s1) \<Rightarrow> delete_all w bs (await w s1))"

definition and_then :: "world \<Rightarrow> (exn + unit) \<times> reporter \<Rightarrow> (reporter \<Rightarrow> (exn + 'a) \<times> reporter)
    \<Rightarrow> (exn + 'a) \<times> reporter" where
  "and_then w r k = (case r of (Inl e, s) \<Rightarrow> (Inl e, s) | (Inr _, s) \<Rightarrow> k (await w s))"

text \<open>A single stored batch over the size limit is sent in halves; what is left of it
  stays in its own row, and a row a size refusal left behind is held.\<close>

definition hold_row :: "bool \<Rightarrow> nat \<Rightarrow> reporter \<Rightarrow> reporter" where
  "hold_row h rid s = (if h then s\<lparr>size_held := List.insert rid (size_held s)\<rparr> else s)"

definition replay_oversized :: "world \<Rightarrow> config \<Rightarrow> StoredBatch \<Rightarrow> reporter \<Rightarrow> (exn + bool) \<times> reporter" where
  "replay_oversized w c b s =
     (case send_in_parts w c (checks b) (Some (created_at b)) s of
        ((got, unsent), s1) \<Rightarrow>
          and_then w
            (if unsent = [] then delete_stored_batch_sync w (row_id b) s1
             else if unsent \<noteq> checks b then rewrite_stored_batch_sync w (row_id b) unsent s1
             else (Inr (), s1))
            (\<lambda>s2. (Inr (got \<noteq> TRANSIENT), hold_row (got = TOO_LARGE) (row_id b) s2)))"

text \<open>The body of \<^verbatim>\<open>_replay_group\<close>; \<open>each\<close> is its last resort for a group of several,
  the loop over its batches.\<close>

definition replay_with :: "(StoredBatch list \<Rightarrow> reporter \<Rightarrow> (exn + bool) \<times> reporter)
    \<Rightarrow> world \<Rightarrow> config \<Rightarrow> StoredBatch list \<Rightarrow> reporter \<Rightarrow> (exn + bool) \<times> reporter" where
  "replay_with each w c grp s =
     (case post_batch w c (concat (map checks grp)) s of
        ((outcome, sc, detail), s1) \<Rightarrow>
          (if outcome = SENT then and_then w (delete_all w grp s1) (\<lambda>s2. (Inr True, s2))
           else if outcome = TOO_LARGE \<and> length grp = 1
           then replay_oversized w c (hd grp) s1
           else case sc of
             None \<Rightarrow> (Inr False, s1)
           | Some status \<Rightarrow>
               (if outcome = TRANSIENT then (Inr False, s1)
                else if 1 < length grp then each grp s1
                else and_then w
                  (move_to_dead_letters_sync w c (row_id (hd grp)) status detail s1)
                  (\<lambda>s2. (Inr True, s2)))))"

definition replay_single :: "world \<Rightarrow> config \<Rightarrow> StoredBatch \<Rightarrow> reporter \<Rightarrow> (exn + bool) \<times> reporter" where
  "replay_single w c b s = replay_with (\<lambda>_ s. (Inr True, s)) w c [b] s"

fun replay_each :: "world \<Rightarrow> config \<Rightarrow> StoredBatch list \<Rightarrow> reporter \<Rightarrow> (exn + bool) \<times> reporter" where
  "replay_each w c [] s = (Inr True, s)"
| "replay_each w c (b # bs) s =
     (if stopped s then (Inr False, s)
      else case replay_single w c b s of
        (Inr True, s1) \<Rightarrow> replay_each w c bs s1
      | r \<Rightarrow> r)"

definition replay_group :: "world \<Rightarrow> config \<Rightarrow> StoredBatch list \<Rightarrow> reporter \<Rightarrow> (exn + bool) \<times> reporter" where
  "replay_group w c grp s = replay_with (replay_each w c) w c grp s"

text \<open>\<^verbatim>\<open>_replay_pending\<close>: combine up to \<open>batch_size\<close> results per POST.\<close>

fun replay_pending :: "world \<Rightarrow> config \<Rightarrow> StoredBatch list \<Rightarrow> StoredBatch list \<Rightarrow> nat \<Rightarrow> reporter
    \<Rightarrow> (exn + unit) \<times> reporter" where
  "replay_pending w c [] grp n s =
     (if grp \<noteq> [] \<and> \<not> stopped s
      then (case replay_group w c grp s of
              (Inl e, s1) \<Rightarrow> (Inl e, s1) | (Inr _, s1) \<Rightarrow> (Inr (), s1))
      else (Inr (), s))"
| "replay_pending w c (b # bs) grp n s =
     (if stopped s then (Inr (), s)
      else if grp \<noteq> [] \<and> batch_size c < n + length (checks b)
      then (case replay_group w c grp s of
              (Inr True, s1) \<Rightarrow> replay_pending w c bs [b] (length (checks b)) s1
            | (Inr False, s1) \<Rightarrow> (Inr (), s1)
            | (Inl e, s1) \<Rightarrow> (Inl e, s1))
      else replay_pending w c bs (grp @ [b]) (n + length (checks b)) s)"

text \<open>One turn of \<^verbatim>\<open>process_stored_reports\<close>; an error is logged and ends the turn.\<close>

definition replay_pass :: "world \<Rightarrow> config \<Rightarrow> reporter \<Rightarrow> reporter" where
  "replay_pass w c s =
     (case process_stored_reports_sync w c s of
        (Inl _, s1) \<Rightarrow> s1
      | (Inr found, s1) \<Rightarrow>
          (let s2 = await w s1
           in if found \<noteq> [] \<and> running s2 then snd (replay_pending w c found [] 0 s2) else s2))"

section \<open>What a replay keeps\<close>

definition stored_in :: "reporter \<Rightarrow> StoredBatch \<Rightarrow> bool" where
  "stored_in s b \<longleftrightarrow> (\<exists>r\<in>set (pending s). p_id r = row_id b \<and> p_payload r = Gzip (checks b))"

text \<open>\<open>kept w s s'\<close>: nothing taken is lost, and with a working database nothing is
  counted twice either. \<open>spares w ids s s'\<close>: besides, the rows not in \<open>ids\<close> are still
  stored.\<close>

definition kept :: "world \<Rightarrow> reporter \<Rightarrow> reporter \<Rightarrow> bool" where
  "kept w s s' \<longleftrightarrow> tables_ok s' \<and> accounted s \<subseteq># accounted s' \<and>
     ((\<forall>n. db_up w n) \<longrightarrow> accounted s' = accounted s)"

definition spares :: "world \<Rightarrow> nat set \<Rightarrow> reporter \<Rightarrow> reporter \<Rightarrow> bool" where
  "spares w ids s s' \<longleftrightarrow>
     kept w s s' \<and> (\<forall>b. stored_in s b \<longrightarrow> row_id b \<notin> ids \<longrightarrow> stored_in s' b)"



lemma stored_in_step [simp]:
  "stored_in (await w s) = stored_in s"
  "stored_in (s\<lparr>tick := n\<rparr>) = stored_in s"
  "stored_in (hold_row h i s) = stored_in s"
  by (simp_all add: stored_in_def await_def hold_row_def fun_eq_iff)

lemma spares_step [simp]:
  "spares w ids s (await w' s') = spares w ids s s'"
  "spares w ids s (hold_row h i s') = spares w ids s s'"
  by (auto simp: spares_def kept_def accounted_def tables_ok_def await_def hold_row_def
      stored_in_def)
















subsection \<open>Reading the table\<close>






section \<open>The reporter as a whole\<close>

text \<open>A run of the reporter: results arrive, the batch processor and explicit flushes
  send, replay passes run, the reporter is stopped and started again, in any order.
  The index of \<open>runs\<close> lists the results taken so far.\<close>

inductive runs :: "world \<Rightarrow> config \<Rightarrow> dict list \<Rightarrow> reporter \<Rightarrow> bool" for w c where
  init: "runs w c [] (init_reporter t)"
| take_result: "runs w c rs s \<Longrightarrow> runs w c (rs @ [r]) (add_result w c r s)"
| flush_now: "runs w c rs s \<Longrightarrow> runs w c rs (snd (flush w c s))"
| round: "runs w c rs s \<Longrightarrow> runs w c rs (batch_processor_round w c s)"
| replay: "runs w c rs s \<Longrightarrow> runs w c rs (replay_pass w c s)"
| start_up: "runs w c rs s \<Longrightarrow> runs w c rs (start w c s)"
| shut_down: "runs w c rs s \<Longrightarrow> runs w c rs (stop w c s)"

inductive_cases runs_NilE: "runs w c [] s"











section \<open>No discards under the caps\<close>

text \<open>With storage on, a working database and room in both tables, a batch the server
  does not take is stored or dead-lettered whole: nothing is given up.\<close>

definition storage_on :: "world \<Rightarrow> config \<Rightarrow> bool" where
  "storage_on w c \<longleftrightarrow> enable_local_storage c \<and> (\<forall>n. db_up w n)"

lemma prune_first_0 [simp]: "prune_first rid key 0 rows = rows" "first_by key 0 rows = []"
  by (simp_all add: prune_first_def first_by_def)

lemma dead_letter_room:
  assumes "storage_on w c" "length (dead_letters s) < max_dead_letters c"
  shows "discarded (dead_letter_batch w c b st d cr s) = discarded s"
    "length (dead_letters (dead_letter_batch w c b st d cr s)) = Suc (length (dead_letters s))"
  using assms
  by (simp_all add: storage_on_def dead_letter_batch_def dead_letter_batch_sync_def Let_def
      await_def prune_dead_letters_def insert_dead_letter_def)

lemma store_room:
  assumes "storage_on w c" "length (pending s) < max_stored_batches c"
  shows "discarded (store_batch_to_db w c b s) = discarded s"
    "length (pending (store_batch_to_db w c b s)) = Suc (length (pending s))"
  using assms
  by (simp_all add: storage_on_def store_batch_to_db_def store_batch_to_db_sync_def Let_def
      await_def insert_pending_def)

definition parts_room :: "config \<Rightarrow> dict list \<Rightarrow> parts \<Rightarrow> reporter \<Rightarrow> bool" where
  "parts_room c ds p s \<longleftrightarrow> discarded s = ds \<and> (\<forall>q\<in>set (work p). q \<noteq> []) \<and>
     length (dead_letters s) + length (concat (work p)) \<le> max_dead_letters c"

lemma parts_body_room:
  assumes on: "storage_on w c" and room: "parts_room c ds (p\<lparr>work := part # work p\<rparr>) s"
  shows "parts_room c ds (fst (parts_body w c cr part p s)) (snd (parts_body w c cr part p s))"
proof -
  obtain out sc d s1 where post: "post_batch w c part s = ((out, sc, d), s1)"
    by (metis prod.exhaust)
  have s1: "discarded s1 = ds" "dead_letters s1 = dead_letters s"
    using post_batch_frame [OF post] room by (auto simp: same_store_def parts_room_def)
  have ne: "part \<noteq> []" and rest: "\<forall>q\<in>set (work p). q \<noteq> []"
    and le: "length (dead_letters s) + length part + length (concat (work p)) \<le> max_dead_letters c"
    using room by (auto simp: parts_room_def)
  from ne obtain k where k: "length part = Suc k" by (cases part) auto
  have "length (dead_letters s1) < max_dead_letters c"
    using le by (simp add: s1(2) k)
  note dl = dead_letter_room [OF on this]
  have "\<forall>q\<in>set (halves part @ work p). q \<noteq> []" if "1 < length part"
    using that rest by (auto simp: halves_def)
  then show ?thesis
    using post s1 ne rest le dl room
    by (cases out; cases sc) (auto simp: parts_body_def parts_room_def k)
qed

lemma parts_loop_room:
  assumes "storage_on w c" "parts_room c ds p s"
  shows "parts_room c ds (fst (parts_loop w c cr p s)) (snd (parts_loop w c cr p s))"
  using assms
proof (induction w c cr p s rule: parts_loop.induct)
  case (1 w c cr p s)
  show ?case
  proof (cases "work p")
    case Nil
    with "1.prems" show ?thesis by (simp add: parts_loop.simps [of w c cr p s])
  next
    case (Cons part rest)
    have "parts_room c ds (p\<lparr>work := part # work (p\<lparr>work := rest\<rparr>)\<rparr>) s"
      using "1.prems" Cons by (simp add: parts_room_def)
    with "1.prems" have "parts_room c ds (fst (parts_body w c cr part (p\<lparr>work := rest\<rparr>) s))
        (snd (parts_body w c cr part (p\<lparr>work := rest\<rparr>) s))"
      by (intro parts_body_room) simp_all
    with "1.IH" [OF Cons "1.prems"(1)] show ?thesis
      by (simp add: parts_loop.simps [of w c cr p s] Cons)
  qed
qed

lemma send_in_parts_room:
  assumes on: "storage_on w c" and b: "b \<noteq> []"
    and room: "length (dead_letters s) + length b \<le> max_dead_letters c"
    and run: "send_in_parts w c b cr s = ((out, unsent), s')"
  shows "discarded s' = discarded s"
proof (cases "length b = 1")
  case True
  with run show ?thesis by (simp add: send_in_parts_def)
next
  case False
  define p0 where "p0 = \<lparr>work = halves b, untried = [], refused = [], sent_count = 0,
      stop_at = None, permanent = False\<rparr>"
  have two: "2 \<le> length b" using b False by (cases b) (auto simp: Suc_le_eq)
  then have "0 < length b div 2" "length b div 2 < length b" by auto
  then have "parts_room c (discarded s) p0 s"
    using room by (auto simp: p0_def parts_room_def halves_def)
  from parts_loop_room [OF on this, of cr] run False show ?thesis
    by (auto simp: send_in_parts_def p0_def [symmetric] Let_def parts_room_def split: prod.splits)
qed

lemma deliver_room:
  assumes on: "storage_on w c" and b: "b \<noteq> []" and ok: "tables_ok s"
    and room: "length (pending s) < max_stored_batches c"
      "length (dead_letters s) + length b \<le> max_dead_letters c"
    and run: "deliver w c b s = (out, s')"
  shows "discarded s' = discarded s"
proof -
  obtain out1 sc d s1 where post: "post_batch w c b s = ((out1, sc, d), s1)"
    by (metis prod.exhaust)
  have s1: "discarded s1 = discarded s" "dead_letters s1 = dead_letters s" "pending s1 = pending s"
    using post_batch_frame [OF post] by (auto simp: same_store_def)
  have ok1: "tables_ok s1"
    using post_batch_accounted [OF post] ok by simp
  obtain out2 unsent s2 where sp: "send_in_parts w c b None s1 = ((out2, unsent), s2)"
    by (metis prod.exhaust)
  have s2: "discarded s2 = discarded s" "pending s2 = pending s"
    using send_in_parts_room [OF on b _ sp] send_in_parts_grows [OF ok1 sp] s1 room by auto
  from b obtain k where "length b = Suc k" by (cases b) auto
  then have dl: "length (dead_letters s1) < max_dead_letters c"
    using room(2) by (simp add: s1(2))
  show ?thesis
    using run post sp s1 s2 room store_room [OF on, of s1] store_room [OF on, of s2]
      dead_letter_room [OF on dl]
    by (cases out1; cases sc) (auto simp: deliver_def split: if_splits)
qed

section \<open>Properties\<close>

text \<open>A concrete setting for the witnesses: a server that answers every POST with
  \<open>200\<close> (\<open>up_world\<close>) or with \<open>503\<close> (\<open>down_world\<close>), and the agent's defaults.\<close>

definition demo_world :: "http_reply \<Rightarrow> world" where
  "demo_world reply = \<lparr>replies = (\<lambda>_. reply), stops = (\<lambda>_. False), db_up = (\<lambda>_. True),
     clock = int, json_loads = (\<lambda>_. None), scrub_text = (\<lambda>t. t)\<rparr>"

abbreviation up_world :: world where "up_world \<equiv> demo_world (HttpReply 200 [])"
abbreviation down_world :: world where "down_world \<equiv> demo_world (HttpReply 503 [])"

definition demo_config :: config where
  "demo_config = \<lparr>agent_id = ''a1'', max_retries = 3, batch_size = 5000, report_interval = 10,
     max_queue_size = 5000, max_files_per_batch = 5, max_stored_batches = 10000,
     max_dead_letters = 1000, enable_local_storage = True\<rparr>"

lemma demo_facts [simp]:
  "storage_on (demo_world reply) demo_config" "db_up (demo_world reply) n"
  "max_stored_batches demo_config = 10000" "max_dead_letters demo_config = 1000"
  "max_queue_size demo_config = 5000" "enable_local_storage demo_config"
  by (simp_all add: demo_world_def demo_config_def storage_on_def)

lemma init_facts [simp]:
  "tables_ok (init_reporter t)" "accounted (init_reporter t) = {#}"
  "pending (init_reporter t) = []" "dead_letters (init_reporter t) = []"
  "discarded (init_reporter t) = []" "current_batch (init_reporter t) = []"
  by (simp_all add: init_reporter_def tables_ok_def accounted_def)



text \<open>C2: delivering a batch with local storage on, a working database and room in both
  tables gives nothing up, whatever the server answers and however often the batch is split:
  every result is acknowledged, stored for replay or dead-lettered.\<close>

theorem deliver_gives_nothing_up:
  assumes "storage_on w c" "b \<noteq> []" "tables_ok s"
    and "length (pending s) < max_stored_batches c"
    and "length (dead_letters s) + length b \<le> max_dead_letters c"
  shows "discarded (snd (deliver w c b s)) = discarded s \<and>
    accounted (snd (deliver w c b s)) = accounted s + mset b"
  using deliver_room [OF assms] deliver_total [OF assms(3)] by (metis prod.collapse)

theorem deliver_gives_nothing_up_witness:
  "discarded (snd (deliver down_world demo_config [[]] (init_reporter 0))) = [] \<and>
   accounted (snd (deliver down_world demo_config [[]] (init_reporter 0))) = {#[]#}"
  using deliver_gives_nothing_up [of down_world demo_config "[[]]" "init_reporter 0"]
  by simp



lemma post_batch_stopped: "stopped s \<Longrightarrow> post_batch w c b s = ((TRANSIENT, None, []), s)"
  by (cases "max_retries c") (simp_all add: post_batch_def)

text \<open>stopping a running reporter never sends: the results still in memory go, as one
  batch, into the pending table, and memory is empty afterwards (storage on, database up,
  room for the batch).\<close>

theorem stop_stores_current_batch:
  assumes "storage_on w c" "running s" "current_batch s \<noteq> []"
    and "length (pending s) < max_stored_batches c"
  shows "current_batch (stop w c s) = [] \<and> delivered (stop w c s) = delivered s \<and>
    (\<exists>row. pending (stop w c s) = pending s @ [row] \<and> p_payload row = Gzip (current_batch s) \<and>
       p_batch_size row = length (current_batch s)) \<and> \<not> running (stop w c s)"
  using assms
  by (simp add: stop_def Let_def flush_def send_batch_def deliver_def post_batch_stopped stopped_def
      store_batch_to_db_def store_batch_to_db_sync_def storage_on_def insert_pending_def await_def)

theorem stop_stores_current_batch_witness:
  "current_batch (stop up_world demo_config
     ((init_reporter 0)\<lparr>running := True, current_batch := [[]]\<rparr>)) = []"
  using stop_stores_current_batch [of up_world demo_config
      "(init_reporter 0)\<lparr>running := True, current_batch := [[]]\<rparr>"] by simp

text \<open>C4: adding a result keeps the in-memory batch within \<open>max_queue_size\<close>, for any bound
  of at least two; the new result, fitted to the server's limits, is the newest, and what is
  dropped is the oldest end of the batch.\<close>

theorem add_result_bounded:
  assumes "2 \<le> max_queue_size c"
  shows "int (length (current_batch (add_result w c r s))) \<le>
      max (max_queue_size c) (int (length (current_batch s)) + 1) \<and>
    (max_queue_size c \<le> int (length (current_batch s)) \<longrightarrow>
      int (length (current_batch (add_result w c r s))) = max_queue_size c) \<and>
    (\<exists>kept. suffix kept (current_batch s) \<and>
       current_batch (add_result w c r s) = kept @ [fit_result r])"
proof -
  have cb: "current_batch (start w c s) = current_batch s"
    by (simp add: start_def)
  have suf: "suffix (py_from k xs) xs" for k and xs :: "dict list"
    by (simp add: py_from_def suffix_drop)
  have len: "int (length (py_from (- (max_queue_size c - 1)) (current_batch s))) =
      max_queue_size c - 1" if "max_queue_size c \<le> int (length (current_batch s))"
    using length_py_from_neg [of "nat (max_queue_size c - 1)" "current_batch s"] assms that
    by (simp add: min_def split: if_splits)
  show ?thesis
    using assms len suf by (auto simp: add_result_def Let_def cb)
qed

theorem add_result_bounded_witness:
  "int (length (current_batch (add_result up_world demo_config [] (init_reporter 0)))) \<le> 5000"
  using add_result_bounded [of demo_config up_world "[]" "init_reporter 0"] by simp

text \<open>with \<open>max_queue_size = 1\<close> the slice \<open>[-0:]\<close> keeps the whole batch, so an
  overwhelmed reporter drops nothing: each result taken lengthens the batch, while
  \<open>dropped_results\<close> counts a drop for all but the first.\<close>

theorem add_result_unbounded_at_one:
  assumes "max_queue_size c = 1"
  shows "current_batch (add_result w c r s) = current_batch s @ [fit_result r] \<and>
    dropped_results (add_result w c r s) =
      dropped_results s + (if current_batch s = [] then 0 else 1)"
  using assms by (auto simp: add_result_def Let_def start_def py_from_def Suc_le_eq)

theorem add_result_unbounded_at_one_witness:
  "length (current_batch (add_result up_world (demo_config\<lparr>max_queue_size := 1\<rparr>) []
     (add_result up_world (demo_config\<lparr>max_queue_size := 1\<rparr>) [] (init_reporter 0)))) = 2"
  using add_result_unbounded_at_one [of "demo_config\<lparr>max_queue_size := 1\<rparr>" up_world "[]"]
  by simp

text \<open>C5: storing a batch with a working database leaves at most \<open>max_stored_batches\<close> rows
  in a table that was within its cap, and a row pruned to make room is no newer than any row
  kept.\<close>

theorem store_batch_capped:
  assumes "storage_on w c" "tables_ok s" "length (pending s) \<le> max_stored_batches c"
  shows "length (pending (store_batch_to_db w c b s)) \<le> max_stored_batches c \<and>
    (\<forall>x y. x \<in> set (pending s) \<longrightarrow> x \<notin> set (pending (store_batch_to_db w c b s)) \<longrightarrow>
      y \<in> set (pending (store_batch_to_db w c b s)) \<longrightarrow> p_created_at x \<le> p_created_at y)"
proof -
  define s1 where "s1 = insert_pending w c b (s\<lparr>tick := Suc (tick s)\<rparr>)"
  define n where "n = length (pending s1) - max_stored_batches c"
  have len: "length (pending s1) \<le> Suc (max_stored_batches c)"
    using assms(3) by (simp add: s1_def insert_pending_def)
  have ok: "distinct (map p_id (pending s1))"
    using assms(2) by (simp add: s1_def tables_ok_distinct insert_pending_facts)
  have sub: "set (pending s) \<subseteq> set (pending s1)"
    by (auto simp: s1_def insert_pending_def)
  have "pending (store_batch_to_db w c b s) =
      (if max_stored_batches c < length (pending s1)
       then prune_first p_id p_created_at n (pending s1) else pending s1)"
    using assms(1)
    by (simp add: storage_on_def store_batch_to_db_def store_batch_to_db_sync_def Let_def await_def
        prune_pending_def n_def s1_def [symmetric])
  moreover have "length (prune_first p_id p_created_at n (pending s1)) \<le> max_stored_batches c"
    using length_prune_first [OF ok, of p_created_at n] by (simp add: n_def)
  ultimately show ?thesis
    using prune_first_oldest [OF ok, of _ p_created_at n] sub by auto
qed

theorem store_batch_capped_witness:
  "length (pending (store_batch_to_db up_world (demo_config\<lparr>max_stored_batches := 1\<rparr>) [[]]
     (store_batch_to_db up_world (demo_config\<lparr>max_stored_batches := 1\<rparr>) [] (init_reporter 0)))) \<le> 1"
proof -
  have on: "storage_on up_world (demo_config\<lparr>max_stored_batches := 1\<rparr>)"
    by (simp add: storage_on_def)
  let ?s1 = "store_batch_to_db up_world (demo_config\<lparr>max_stored_batches := 1\<rparr>) [] (init_reporter 0)"
  have "tables_ok ?s1" by (simp add: store_facts)
  moreover have "length (pending ?s1) \<le> max_stored_batches (demo_config\<lparr>max_stored_batches := 1\<rparr>)"
    using store_batch_capped [OF on, of "init_reporter 0" "[]"] by simp
  ultimately show ?thesis
    using store_batch_capped [OF on, of ?s1 "[[]]"] by simp
qed

text \<open>a result fitted for the report is within every limit of the server's schema the
  agent enforces, and fitting it again changes nothing.\<close>

theorem fit_result_fits:
  "within_limits (fit_result r) \<and> fit_result (fit_result r) = fit_result r"
  using fit_result_within_limits fit_result_id by blast

end
