(* ===== verification/Assignment.thy ===== *)
theory Assignment
  imports Prelude "HOL-Library.Char_ord" "HOL-Library.List_Lexorder" "HOL-Library.Product_Lexorder"
begin

text \<open>
  Which agent runs which check (\<^verbatim>\<open>services/core/agent_assignment_core_service.py\<close>) and when
  an agent counts as offline (\<^verbatim>\<open>core/liveness.py\<close>). A check is bound to one agent, replicated
  to every agent its selector matches, or distributed: one agent of the matching pool runs it,
  chosen by rendezvous hashing. A selector is stored as the JSON it was given, so a malformed
  one raises where the code reads it.

  Parameters: \<open>sha256_int\<close>, the digest read as a number, and the server's default heartbeat
  interval.
\<close>

section \<open>Agents and checks\<close>

datatype AgentStatus = ONLINE | DEGRADED | OFFLINE | UNKNOWN

datatype AssignmentMode = MANUAL | REPLICATE | DISTRIBUTE

datatype AgentApprovalStatus = AA_PENDING | AA_ACTIVE | AA_PAUSED | AA_DISABLED | AA_ARCHIVED | AA_REJECTED

record Agent =
  ag_id :: uuid
  ag_name :: "string option"
  ag_tags :: "string list option"
  ag_status :: "AgentStatus option"
  ag_approval_status :: AgentApprovalStatus
  ag_last_seen :: "instant option"
  ag_created_at :: instant
  ag_heartbeat_interval :: "int option"
  ag_checks_updated_at :: "instant option"

record Check =
  ck_id :: uuid
  ck_display_name :: string
  ck_check_type :: string
  ck_depends_on :: "uuid option"
  ck_agent_id :: uuid
  ck_enabled :: bool
  ck_assignment_mode :: AssignmentMode
  ck_agent_selector :: "dict option"
  ck_interval_seconds :: "int option"
  ck_created_at :: instant
  ck_target :: string
  ck_description :: "string option"
  ck_timeout_seconds :: "int option"
  ck_retry_attempts :: "int option"
  ck_retry_interval_seconds :: int
  ck_resend_notification_after :: "int option"
  ck_tags :: "string list option"
  ck_check_config :: "dict option"
  ck_script_code :: "string option"

record fleet =
  agents :: "Agent list"
  checks :: "Check list"

record hashing =
  sha256_int :: "string \<Rightarrow> nat"
  default_heartbeat_interval :: int

definition UNADMITTED_AGENT_STATUSES :: "AgentApprovalStatus list" where
  "UNADMITTED_AGENT_STATUSES = [AA_PENDING, AA_REJECTED, AA_ARCHIVED]"

definition get_agent_by_id :: "'a fleet_scheme \<Rightarrow> uuid \<Rightarrow> py_error + Agent" where
  "get_agent_by_id f aid =
     (case find (\<lambda>a. ag_id a = aid) (agents f) of
        None \<Rightarrow> Inl (NotFoundException ''Agent'') | Some a \<Rightarrow> Inr a)"

section \<open>Liveness\<close>

definition SECOND :: int where "SECOND = 1000000"

definition DEFAULT_CHECK_INTERVAL_SECONDS :: int where "DEFAULT_CHECK_INTERVAL_SECONDS = 60"
definition DEFAULT_MISSED_INTERVALS :: int where "DEFAULT_MISSED_INTERVALS = 3"
definition MAX_MISSED_INTERVALS :: int where "MAX_MISSED_INTERVALS = 100"
definition GRACE_SECONDS :: int where "GRACE_SECONDS = 60"

text \<open>\<open>x or dflt\<close> of an optional number: zero counts as unset.\<close>

definition int_or :: "int option \<Rightarrow> int \<Rightarrow> int" where
  "int_or x dflt = (case x of None \<Rightarrow> dflt | Some n \<Rightarrow> if n = 0 then dflt else n)"

definition silent_after :: "int option \<Rightarrow> int \<Rightarrow> int" where
  "silent_after interval missed =
     (int_or interval DEFAULT_CHECK_INTERVAL_SECONDS * missed + GRACE_SECONDS) * SECOND"

definition heartbeat_interval :: "hashing \<Rightarrow> Agent \<Rightarrow> int" where
  "heartbeat_interval H a = int_or (ag_heartbeat_interval a) (default_heartbeat_interval H)"

definition last_seen_or_created :: "Agent \<Rightarrow> instant" where
  "last_seen_or_created a = (case ag_last_seen a of None \<Rightarrow> ag_created_at a | Some t \<Rightarrow> t)"

definition offline_at :: "hashing \<Rightarrow> Agent \<Rightarrow> int \<Rightarrow> instant" where
  "offline_at H a missed = last_seen_or_created a + silent_after (Some (heartbeat_interval H a)) missed"

definition agent_offline :: "hashing \<Rightarrow> Agent \<Rightarrow> instant \<Rightarrow> int \<Rightarrow> bool" where
  "agent_offline H a now missed \<longleftrightarrow> offline_at H a missed < now"

definition handed_off :: "hashing \<Rightarrow> Agent \<Rightarrow> instant \<Rightarrow> bool" where
  "handed_off H a now \<longleftrightarrow> ag_status a = Some OFFLINE \<or> agent_offline H a now DEFAULT_MISSED_INTERVALS"

definition handed_off_at :: "hashing \<Rightarrow> Agent \<Rightarrow> instant" where
  "handed_off_at H a =
     (if ag_status a = Some OFFLINE then last_seen_or_created a
      else offline_at H a DEFAULT_MISSED_INTERVALS)"

section \<open>Selectors\<close>

text \<open>\<open>set(v)\<close>: the elements of a list, the characters of a string, the keys of a
  dictionary; a list or a dictionary inside a list cannot be hashed.\<close>

fun hashable :: "json \<Rightarrow> bool" where
  "hashable (JList _) = False"
| "hashable (JDict _) = False"
| "hashable _ = True"

fun py_set :: "json \<Rightarrow> py_error + json list" where
  "py_set (JList xs) = (if list_all hashable xs then Inr xs else Inl TypeError)"
| "py_set (JStr s) = Inr (map (\<lambda>c. JStr [c]) s)"
| "py_set (JDict d) = Inr (map (\<lambda>(k, _). JStr k) d)"
| "py_set _ = Inl TypeError"

definition stripped_tags :: "Agent \<Rightarrow> string list" where
  "stripped_tags a =
     (case ag_tags a of None \<Rightarrow> [] | Some ts \<Rightarrow> filter (\<lambda>s. s \<noteq> []) (map py_strip ts))"

definition no_tags :: "Agent \<Rightarrow> bool" where
  "no_tags a = (case ag_tags a of None \<Rightarrow> True | Some ts \<Rightarrow> ts = [])"

definition agent_matches_selector :: "Agent \<Rightarrow> dict option \<Rightarrow> py_error + bool" where
  "agent_matches_selector a selector =
     (case selector of
        None \<Rightarrow> Inr False
      | Some sel \<Rightarrow>
          (case dict_get sel ''agent_ids'' of
             Some ids \<Rightarrow> py_member (case ag_name a of None \<Rightarrow> JNull | Some s \<Rightarrow> JStr s) ids
           | None \<Rightarrow>
               (case dict_get sel ''tags'' of
                  None \<Rightarrow> Inr False
                | Some tags \<Rightarrow>
                    (if no_tags a then Inr False
                     else res_bind (py_set tags) (\<lambda>required.
                       let held = map JStr (stripped_tags a)
                       in if dict_get_or sel ''match_mode'' (JStr ''all'') = JStr ''any''
                          then Inr (list_ex (\<lambda>x. x \<in> set held) required)
                          else Inr (list_all (\<lambda>x. x \<in> set held) required))))))"

section \<open>Rendezvous hashing\<close>

definition hrw_score :: "hashing \<Rightarrow> Check \<Rightarrow> Agent \<Rightarrow> nat \<times> string" where
  "hrw_score H c a =
     (sha256_int H (uuid_str (ck_id c) @ '':'' @ uuid_str (ag_id a)), uuid_str (ag_id a))"

definition get_assigned_agent_for_check :: "hashing \<Rightarrow> Check \<Rightarrow> Agent list \<Rightarrow> Agent option" where
  "get_assigned_agent_for_check H c available = max_by (hrw_score H c) available"

definition distribute_owner :: "hashing \<Rightarrow> Check \<Rightarrow> Agent list \<Rightarrow> instant \<Rightarrow> Agent option" where
  "distribute_owner H c pool now =
     (let online = filter (\<lambda>a. \<not> handed_off H a now) pool
      in get_assigned_agent_for_check H c (if online \<noteq> [] then online else pool))"

fun py_max_int :: "int list \<Rightarrow> int option" where
  "py_max_int [] = None"
| "py_max_int (x # xs) = (case py_max_int xs of None \<Rightarrow> Some x | Some m \<Rightarrow> Some (max x m))"

definition handed_over_at :: "hashing \<Rightarrow> Check \<Rightarrow> Agent list \<Rightarrow> instant \<Rightarrow> instant option" where
  "handed_over_at H c pool now =
     (case distribute_owner H c pool now of
        None \<Rightarrow> None
      | Some owner \<Rightarrow>
          py_max_int (map (handed_off_at H)
            (filter (\<lambda>a. hrw_score H c owner < hrw_score H c a) pool)))"

fun filter_matching :: "Agent list \<Rightarrow> dict option \<Rightarrow> py_error + Agent list" where
  "filter_matching [] sel = Inr []"
| "filter_matching (a # as) sel =
     res_bind (agent_matches_selector a sel) (\<lambda>m.
       res_bind (filter_matching as sel) (\<lambda>rest. Inr (if m then a # rest else rest)))"

definition filter_agents_by_selector :: "Agent list \<Rightarrow> dict option \<Rightarrow> py_error + Agent list" where
  "filter_agents_by_selector as selector =
     (case selector of
        None \<Rightarrow> Inr []
      | Some sel \<Rightarrow> if sel = [] then Inr [] else filter_matching as (Some sel))"

section \<open>Who runs what\<close>

definition list_active :: "'a fleet_scheme \<Rightarrow> Agent list" where
  "list_active f = filter (\<lambda>a. ag_approval_status a = AA_ACTIVE) (agents f)"

definition list_assignment_candidates :: "'a fleet_scheme \<Rightarrow> uuid \<Rightarrow> Check list" where
  "list_assignment_candidates f aid =
     filter (\<lambda>c. ck_assignment_mode c = MANUAL \<and> ck_agent_id c = aid \<or>
                 ck_assignment_mode c = REPLICATE \<or> ck_assignment_mode c = DISTRIBUTE) (checks f)"

definition list_enabled :: "'a fleet_scheme \<Rightarrow> Check list" where
  "list_enabled f = filter ck_enabled (checks f)"

definition runs_on :: "hashing \<Rightarrow> 'a fleet_scheme \<Rightarrow> Agent \<Rightarrow> bool \<Rightarrow> instant \<Rightarrow> Check
    \<Rightarrow> py_error + bool" where
  "runs_on H f a owned_only now c =
     (case ck_assignment_mode c of
        MANUAL \<Rightarrow> Inr (ck_agent_id c = ag_id a)
      | REPLICATE \<Rightarrow> agent_matches_selector a (ck_agent_selector c)
      | DISTRIBUTE \<Rightarrow>
          res_bind (agent_matches_selector a (ck_agent_selector c)) (\<lambda>m.
            if \<not> m then Inr False
            else res_bind (filter_agents_by_selector (list_active f) (ck_agent_selector c)) (\<lambda>pool.
              if \<not> owned_only then Inr (list_ex (\<lambda>x. ag_id x = ag_id a) pool)
              else Inr (case distribute_owner H c pool now of
                          None \<Rightarrow> False | Some owner \<Rightarrow> ag_id owner = ag_id a))))"

fun filter_res :: "('a \<Rightarrow> py_error + bool) \<Rightarrow> 'a list \<Rightarrow> py_error + 'a list" where
  "filter_res p [] = Inr []"
| "filter_res p (x # xs) =
     res_bind (p x) (\<lambda>b. res_bind (filter_res p xs) (\<lambda>ys. Inr (if b then x # ys else ys)))"

definition checks_for_agent :: "hashing \<Rightarrow> 'a fleet_scheme \<Rightarrow> Agent \<Rightarrow> bool \<Rightarrow> instant
    \<Rightarrow> py_error + Check list" where
  "checks_for_agent H f a owned_only now =
     filter_res (runs_on H f a owned_only now) (list_assignment_candidates f (ag_id a))"

definition get_checks_for_agent :: "hashing \<Rightarrow> 'a fleet_scheme \<Rightarrow> Agent \<Rightarrow> instant
    \<Rightarrow> py_error + Check list" where
  "get_checks_for_agent H f a now = checks_for_agent H f a True now"

definition get_reportable_checks :: "hashing \<Rightarrow> 'a fleet_scheme \<Rightarrow> Agent \<Rightarrow> instant
    \<Rightarrow> py_error + Check list" where
  "get_reportable_checks H f a now = checks_for_agent H f a False now"

definition may_report_for_check :: "hashing \<Rightarrow> 'a fleet_scheme \<Rightarrow> uuid \<Rightarrow> uuid \<Rightarrow> instant
    \<Rightarrow> py_error + bool" where
  "may_report_for_check H f aid cid now =
     (case find (\<lambda>a. ag_id a = aid) (agents f) of
        None \<Rightarrow> Inl (NotFoundException ''Agent'')
      | Some a \<Rightarrow>
          res_bind (get_reportable_checks H f a now) (\<lambda>cs.
            Inr (list_ex (\<lambda>c. ck_id c = cid) cs)))"

text \<open>The agents that are to run a check, and the pool it may run on.\<close>

definition assigned_to :: "hashing \<Rightarrow> 'a fleet_scheme \<Rightarrow> instant \<Rightarrow> Check
    \<Rightarrow> py_error + (Check \<times> Agent list \<times> Agent list)" where
  "assigned_to H f now c =
     (case ck_assignment_mode c of
        MANUAL \<Rightarrow>
          (let owner = (case find (\<lambda>a. ag_id a = ck_agent_id c) (list_active f) of
                          None \<Rightarrow> [] | Some a \<Rightarrow> [a])
           in Inr (c, owner, owner))
      | REPLICATE \<Rightarrow>
          res_bind (filter_agents_by_selector (list_active f) (ck_agent_selector c)) (\<lambda>as.
            Inr (c, as, as))
      | DISTRIBUTE \<Rightarrow>
          res_bind (filter_agents_by_selector (list_active f) (ck_agent_selector c)) (\<lambda>pool.
            Inr (c, (case distribute_owner H c pool now of None \<Rightarrow> [] | Some a \<Rightarrow> [a]), pool)))"

fun map_res :: "('a \<Rightarrow> py_error + 'b) \<Rightarrow> 'a list \<Rightarrow> py_error + 'b list" where
  "map_res f [] = Inr []"
| "map_res f (x # xs) = res_bind (f x) (\<lambda>y. res_bind (map_res f xs) (\<lambda>ys. Inr (y # ys)))"

definition assigned_agents_by_check :: "hashing \<Rightarrow> 'a fleet_scheme \<Rightarrow> instant
    \<Rightarrow> py_error + (Check \<times> Agent list \<times> Agent list) list" where
  "assigned_agents_by_check H f now = map_res (assigned_to H f now) (list_enabled f)"

section \<open>The contract of a rendezvous\<close>

text \<open>What failover relies on: each key's weight tells the members of a pool apart. The
  choice then depends on the pool as a set, a member that is not chosen leaves without moving
  anything, and a newcomer takes only what it wins.\<close>

locale rendezvous =
  fixes weight :: "'c \<Rightarrow> 'm \<Rightarrow> 'k::linorder"
    and ident :: "'m \<Rightarrow> uuid"
  assumes weight_ident:
    "valid_uuid (ident a) \<Longrightarrow> valid_uuid (ident b) \<Longrightarrow> weight c a = weight c b \<Longrightarrow> ident a = ident b"
begin

definition pool_ok :: "'m list \<Rightarrow> bool" where
  "pool_ok pool \<longleftrightarrow> distinct (map ident pool) \<and> (\<forall>a\<in>set pool. valid_uuid (ident a))"

lemma pool_inj: "pool_ok pool \<Longrightarrow> inj_on (weight c) (set pool)"
  unfolding pool_ok_def distinct_map by (metis inj_on_def weight_ident)

lemma chosen_leaving:
  assumes "pool_ok pool" "max_by (weight c) pool = Some x" "P x"
  shows "max_by (weight c) (filter P pool) = Some x"
  using assms by (intro max_by_filter) (auto dest: pool_inj)

lemma chosen_joining:
  assumes "pool_ok (y # pool)" "max_by (weight c) pool = Some x"
  shows "max_by (weight c) (y # pool) \<in> {Some x, Some y}"
  using assms by auto

lemma chosen_set:
  assumes "pool_ok pool" "set pool = set pool'"
  shows "max_by (weight c) pool = max_by (weight c) pool'"
  using assms by (intro max_by_set) (auto dest: pool_inj)

end

interpretation hrw: rendezvous "hrw_score H" ag_id
  by unfold_locales (auto simp: hrw_score_def dest: uuid_str_inj)

definition agents_ok :: "Agent list \<Rightarrow> bool" where
  "agents_ok pool \<longleftrightarrow> distinct (map ag_id pool) \<and> (\<forall>a\<in>set pool. valid_uuid (ag_id a))"

lemma agents_ok_pool: "agents_ok pool \<longleftrightarrow> hrw.pool_ok pool"
  by (simp add: agents_ok_def hrw.pool_ok_def)

lemma agents_ok_filter: "agents_ok pool \<Longrightarrow> agents_ok (filter P pool)"
  by (auto simp: agents_ok_def distinct_map_filter)

section \<open>Running through a list of results\<close>

lemma filter_res_Inr:
  "filter_res p xs = Inr ys \<Longrightarrow>
     (\<forall>x\<in>set xs. \<exists>b. p x = Inr b) \<and> ys = filter (\<lambda>x. p x = Inr True) xs"
  by (induction xs arbitrary: ys) (auto simp: res_bind_Inr_iff)

lemma filter_res_Inl: "x \<in> set xs \<Longrightarrow> p x = Inl e \<Longrightarrow> \<exists>e'. filter_res p xs = Inl e'"
  by (induction xs) (auto simp: res_bind_def split: sum.splits)

lemma map_res_Inr: "map_res f xs = Inr ys \<Longrightarrow> list_all2 (\<lambda>x y. f x = Inr y) xs ys"
  by (induction xs arbitrary: ys) (auto simp: res_bind_Inr_iff)

lemma map_res_Inl: "x \<in> set xs \<Longrightarrow> f x = Inl e \<Longrightarrow> \<exists>e'. map_res f xs = Inl e'"
  by (induction xs) (auto simp: res_bind_def split: sum.splits)

lemma filter_matching_res:
  "filter_matching as sel = filter_res (\<lambda>a. agent_matches_selector a sel) as"
  by (induction as) auto

lemma no_selector_matches_none [simp]:
  "agent_matches_selector a None = Inr False" "agent_matches_selector a (Some []) = Inr False"
  by (simp_all add: agent_matches_selector_def)

lemma filter_agents_Inr:
  "filter_agents_by_selector as sel = Inr pool \<Longrightarrow>
     pool = filter (\<lambda>a. agent_matches_selector a sel = Inr True) as"
  by (cases sel) (auto simp: filter_agents_by_selector_def filter_matching_res
      dest: filter_res_Inr split: if_splits)

section \<open>Failover\<close>

lemma offline_later: "agent_offline H a now missed \<Longrightarrow> now \<le> now' \<Longrightarrow> agent_offline H a now' missed"
  by (simp add: agent_offline_def)

lemma handed_off_later: "handed_off H a now \<Longrightarrow> now \<le> now' \<Longrightarrow> handed_off H a now'"
  by (auto simp: handed_off_def dest: offline_later)

lemma distribute_owner_None [simp]: "distribute_owner H c pool now = None \<longleftrightarrow> pool = []"
  by (auto simp: distribute_owner_def get_assigned_agent_for_check_def Let_def)

lemma distribute_owner_Nil [simp]: "distribute_owner H c [] now = None"
  by simp

lemma distribute_owner_in: "distribute_owner H c pool now = Some a \<Longrightarrow> a \<in> set pool"
  by (auto simp: distribute_owner_def get_assigned_agent_for_check_def Let_def
      dest!: max_by_in split: if_splits)

lemma distribute_owner_online:
  assumes "distribute_owner H c pool now = Some a" "b \<in> set pool" "\<not> handed_off H b now"
  shows "\<not> handed_off H a now"
  using assms max_by_in [of "hrw_score H c" "filter (\<lambda>a. \<not> handed_off H a now) pool" a]
  by (auto simp: distribute_owner_def get_assigned_agent_for_check_def Let_def filter_empty_conv
      split: if_splits)

text \<open>C17: as long as the agent running a distributed check stays online, the check does not
  move, whatever other agents of its pool drop out meanwhile; and the agent running it is online
  whenever any agent of the pool is.\<close>

theorem distribute_owner_stays:
  assumes "agents_ok pool" "distribute_owner H c pool now = Some a"
    and "now \<le> now'" "\<not> handed_off H a now'"
  shows "distribute_owner H c pool now' = Some a \<and>
    (\<forall>b now''. distribute_owner H c pool now'' = Some b \<longrightarrow>
       (\<exists>x\<in>set pool. \<not> handed_off H x now'') \<longrightarrow> \<not> handed_off H b now'')"
proof -
  let ?on = "\<lambda>t. filter (\<lambda>x. \<not> handed_off H x t) pool"
  have on: "a \<in> set (?on now)" "a \<in> set (?on now')"
    using assms distribute_owner_in [OF assms(2)] by (auto dest: handed_off_later)
  then have ne: "?on now \<noteq> []" "?on now' \<noteq> []" by (metis empty_iff empty_set)+
  have "max_by (hrw_score H c) (?on now) = Some a"
    using assms(2) ne by (simp add: distribute_owner_def get_assigned_agent_for_check_def Let_def)
  then have "max_by (hrw_score H c) (filter (\<lambda>x. \<not> handed_off H x now') (?on now)) = Some a"
    using assms(1,4)
    by (intro hrw.chosen_leaving [where pool = "?on now" and P = "\<lambda>x. \<not> handed_off H x now'"])
      (simp_all add: agents_ok_pool [symmetric] agents_ok_filter)
  moreover have "filter (\<lambda>x. \<not> handed_off H x now') (?on now) = ?on now'"
    using assms(3) by (auto dest: handed_off_later intro!: filter_cong)
  ultimately have "distribute_owner H c pool now' = Some a"
    using ne by (simp add: distribute_owner_def get_assigned_agent_for_check_def Let_def)
  then show ?thesis by (blast dest: distribute_owner_online)
qed

lemma find_by_id:
  assumes "distinct (map i xs)" "x \<in> set xs"
  shows "find (\<lambda>y. i y = k) xs = Some x \<longleftrightarrow> i x = k"
proof
  show "find (\<lambda>y. i y = k) xs = Some x \<Longrightarrow> i x = k" by (auto simp: find_Some_iff)
  show "i x = k \<Longrightarrow> find (\<lambda>y. i y = k) xs = Some x"
    using assms by (induction xs) (auto simp: rev_image_eqI)
qed

lemma candidate_iff:
  "c \<in> set (list_assignment_candidates f aid) \<longleftrightarrow>
     c \<in> set (checks f) \<and> (ck_assignment_mode c = MANUAL \<longrightarrow> ck_agent_id c = aid)"
  by (cases "ck_assignment_mode c") (auto simp: list_assignment_candidates_def)

lemma checks_for_agent_iff:
  assumes "checks_for_agent H f a owned now = Inr cs"
  shows "c \<in> set cs \<longleftrightarrow> c \<in> set (checks f) \<and> runs_on H f a owned now c = Inr True"
  using filter_res_Inr [OF assms [unfolded checks_for_agent_def]]
  by (auto simp: candidate_iff runs_on_def)

lemma runs_on_reportable:
  assumes "runs_on H f a True now c = Inr b"
  shows "\<exists>b'. runs_on H f a False now c = Inr b' \<and> (b \<longrightarrow> b')"
proof (cases "ck_assignment_mode c")
  case DISTRIBUTE
  with assms obtain m where m: "agent_matches_selector a (ck_agent_selector c) = Inr m"
    by (auto simp: runs_on_def res_bind_Inr_iff)
  show ?thesis
  proof (cases m)
    case True
    with assms DISTRIBUTE m obtain pool where
      pool: "filter_agents_by_selector (list_active f) (ck_agent_selector c) = Inr pool"
      and b: "b = (case distribute_owner H c pool now of None \<Rightarrow> False | Some o1 \<Rightarrow> ag_id o1 = ag_id a)"
      by (auto simp: runs_on_def res_bind_Inr_iff)
    from b have "b \<longrightarrow> list_ex (\<lambda>x. ag_id x = ag_id a) pool"
      using distribute_owner_in [of H c pool now] by (auto simp: list_ex_iff split: option.splits)
    with DISTRIBUTE m True pool show ?thesis by (simp add: runs_on_def)
  qed (use assms DISTRIBUTE m in \<open>auto simp: runs_on_def\<close>)
qed (use assms in \<open>simp_all add: runs_on_def\<close>)

lemma filter_res_mono:
  assumes "filter_res p xs = Inr ys"
    and "\<And>x b. x \<in> set xs \<Longrightarrow> p x = Inr b \<Longrightarrow> \<exists>b'. q x = Inr b' \<and> (b \<longrightarrow> b')"
  shows "\<exists>zs. filter_res q xs = Inr zs \<and> set ys \<subseteq> set zs"
  using assms
proof (induction xs arbitrary: ys)
  case (Cons x xs)
  then obtain b ys' where b: "p x = Inr b" "filter_res p xs = Inr ys'" "ys = (if b then x # ys' else ys')"
    by (auto simp: res_bind_Inr_iff)
  with Cons obtain zs where "filter_res q xs = Inr zs" "set ys' \<subseteq> set zs" by (metis list.set_intros(2))
  moreover obtain b' where "q x = Inr b'" "b \<longrightarrow> b'" using Cons.prems(2) [of x b] b by auto
  ultimately show ?case using b by auto
qed simp

text \<open>an agent may always report for what it is to run: whenever its checks can be
  listed, so can the checks it may report for, and they include all of them.\<close>

theorem owned_is_reportable:
  assumes "get_checks_for_agent H f a now = Inr cs"
  shows "\<exists>rs. get_reportable_checks H f a now = Inr rs \<and> set cs \<subseteq> set rs"
  using assms filter_res_mono [of "runs_on H f a True now" "list_assignment_candidates f (ag_id a)" cs
      "runs_on H f a False now"] runs_on_reportable [of H f a now]
  by (simp add: get_checks_for_agent_def get_reportable_checks_def checks_for_agent_def)

text \<open>C15: a distributed check whose pool is not empty is run by exactly one active agent.\<close>

theorem distributed_exactly_once:
  assumes ok: "agents_ok (list_active f)" and c: "c \<in> set (checks f)" "ck_assignment_mode c = DISTRIBUTE"
    and pool: "filter_agents_by_selector (list_active f) (ck_agent_selector c) = Inr pool" "pool \<noteq> []"
    and lists: "\<forall>a\<in>set (list_active f). get_checks_for_agent H f a now = Inr (cs a)"
  shows "\<exists>!a. a \<in> set (list_active f) \<and> c \<in> set (cs a)"
proof -
  have pool_def: "pool = filter (\<lambda>a. agent_matches_selector a (ck_agent_selector c) = Inr True) (list_active f)"
    using filter_agents_Inr [OF pool(1)] .
  obtain owner where owner: "distribute_owner H c pool now = Some owner"
    using pool(2) by (cases "distribute_owner H c pool now") auto
  then have o: "owner \<in> set (list_active f)"
    "agent_matches_selector owner (ck_agent_selector c) = Inr True"
    using distribute_owner_in pool_def by fastforce+
  have "c \<in> set (cs a) \<longleftrightarrow> a = owner" if a: "a \<in> set (list_active f)" for a
  proof -
    have "c \<in> set (cs a) \<longleftrightarrow> runs_on H f a True now c = Inr True"
      using lists a c(1) checks_for_agent_iff [of H f a True now "cs a" c]
      by (simp add: get_checks_for_agent_def)
    also have "\<dots> \<longleftrightarrow> a = owner"
      using c(2) pool(1) owner o a ok
      by (auto simp: runs_on_def res_bind_Inr_iff agents_ok_def dest: inj_on_distinct_map inj_onD)
    finally show ?thesis .
  qed
  with o(1) show ?thesis by blast
qed

text \<open>C16: the two readings of the assignment agree: the agents listed for an enabled check are
  the active agents whose own lists hold it, and its pool is the active agents that may report
  for it.\<close>

theorem assignment_two_views:
  assumes ok: "agents_ok (list_active f)" and a: "a \<in> set (list_active f)"
    and rows: "assigned_agents_by_check H f now = Inr rows" "(c, as, pool) \<in> set rows"
    and lists: "get_checks_for_agent H f a now = Inr cs" "get_reportable_checks H f a now = Inr rs"
  shows "(a \<in> set as \<longleftrightarrow> c \<in> set cs) \<and> (a \<in> set pool \<longleftrightarrow> c \<in> set rs)"
proof -
  obtain c' where c': "c' \<in> set (list_enabled f)" "assigned_to H f now c' = Inr (c, as, pool)"
    using map_res_Inr [OF rows(1) [unfolded assigned_agents_by_check_def]] rows(2)
    by (auto simp: list_all2_conv_all_nth set_conv_nth) metis
  then have c: "c \<in> set (checks f)" and asg: "assigned_to H f now c = Inr (c, as, pool)"
    by (auto simp: list_enabled_def assigned_to_def Let_def res_bind_Inr_iff
        split: AssignmentMode.splits)
  have own: "c \<in> set cs \<longleftrightarrow> runs_on H f a True now c = Inr True"
    and rep: "c \<in> set rs \<longleftrightarrow> runs_on H f a False now c = Inr True"
    using lists c checks_for_agent_iff [of H f a _ now _ c]
    by (auto simp: get_checks_for_agent_def get_reportable_checks_def)
  have same: "ag_id x = ag_id a \<longleftrightarrow> x = a" if "x \<in> set (list_active f)" for x
    using ok a that by (auto simp: agents_ok_def dest: inj_on_distinct_map inj_onD)
  show ?thesis
  proof (cases "ck_assignment_mode c")
    case MANUAL
    with asg have "as = pool" "pool = (case find (\<lambda>x. ag_id x = ck_agent_id c) (list_active f) of
        None \<Rightarrow> [] | Some x \<Rightarrow> [x])" by (auto simp: assigned_to_def Let_def)
    with a ok have "as = pool" "a \<in> set pool \<longleftrightarrow> ag_id a = ck_agent_id c"
      using find_by_id [of ag_id "list_active f" a "ck_agent_id c"] same
      unfolding agents_ok_def
      by (auto split: option.splits)
    with MANUAL show ?thesis by (auto simp: own rep runs_on_def)
  next
    case REPLICATE
    with asg filter_agents_Inr a have "as = pool"
      "a \<in> set pool \<longleftrightarrow> agent_matches_selector a (ck_agent_selector c) = Inr True"
      by (auto simp: assigned_to_def res_bind_Inr_iff dest!: filter_agents_Inr)
    with REPLICATE show ?thesis by (simp add: own rep runs_on_def)
  next
    case DISTRIBUTE
    with asg have pool: "filter_agents_by_selector (list_active f) (ck_agent_selector c) = Inr pool"
      and as: "as = (case distribute_owner H c pool now of None \<Rightarrow> [] | Some x \<Rightarrow> [x])"
      by (auto simp: assigned_to_def res_bind_Inr_iff)
    note pool_def = filter_agents_Inr [OF pool]
    have "a \<in> set pool \<longleftrightarrow> agent_matches_selector a (ck_agent_selector c) = Inr True"
      using a pool_def by auto
    moreover have sub: "x \<in> set pool \<Longrightarrow> x \<in> set (list_active f)" for x using pool_def by auto
    ultimately show ?thesis
      using DISTRIBUTE pool as same
      by (auto simp: own rep runs_on_def res_bind_Inr_iff list_ex_iff dest!: distribute_owner_in
          split: option.splits)
  qed
qed

text \<open>C18: only what it runs moves. When an agent leaves a pool, every check it was not running
  keeps its agent; when one joins, a check either keeps its agent or goes to the newcomer; and
  the order in which the pool is read does not matter.\<close>

theorem hrw_minimal_disruption:
  assumes ok: "agents_ok (new # pool)" and x: "get_assigned_agent_for_check H c pool = Some x"
  shows "(\<forall>gone. gone \<noteq> x \<longrightarrow>
      get_assigned_agent_for_check H c (filter (\<lambda>a. a \<noteq> gone) pool) = Some x) \<and>
    get_assigned_agent_for_check H c (new # pool) \<in> {Some x, Some new} \<and>
    (\<forall>pool'. set pool' = set pool \<longrightarrow> get_assigned_agent_for_check H c pool' = Some x)"
proof (intro conjI allI impI)
  have "agents_ok pool" using ok by (simp add: agents_ok_def)
  note ok' = ok [unfolded agents_ok_pool] this [unfolded agents_ok_pool]
  show "get_assigned_agent_for_check H c (filter (\<lambda>a. a \<noteq> gone) pool) = Some x" if "gone \<noteq> x" for gone
    using ok'(2) x that unfolding get_assigned_agent_for_check_def
    by (intro hrw.chosen_leaving) auto
  show "get_assigned_agent_for_check H c (new # pool) \<in> {Some x, Some new}"
    using ok'(1) x unfolding get_assigned_agent_for_check_def by (rule hrw.chosen_joining)
  show "get_assigned_agent_for_check H c pool' = Some x" if "set pool' = set pool" for pool'
    using that hrw.chosen_set [OF ok'(2), of pool'] x by (simp add: get_assigned_agent_for_check_def)
qed

lemma malformed_selector_raises:
  assumes "dict_get sel ''agent_ids'' = Some v" "v = JNull \<or> (\<exists>n. v = JInt n) \<or> (\<exists>b. v = JBool b)"
  shows "agent_matches_selector a (Some sel) = Inl TypeError"
  using assms by (cases "ag_name a") (auto simp: agent_matches_selector_def)

text \<open>C19: a selector whose \<open>agent_ids\<close> is not a container is accepted when a check is stored, and
  from then on no agent at all, whatever it runs, can list its checks or the checks it may report
  for.\<close>

theorem malformed_selector_blocks_fleet:
  assumes "c \<in> set (checks f)" "ck_assignment_mode c \<noteq> MANUAL" "ck_agent_selector c = Some sel"
    and "dict_get sel ''agent_ids'' = Some v" "v = JNull \<or> (\<exists>n. v = JInt n) \<or> (\<exists>b. v = JBool b)"
  shows "(\<exists>e. get_checks_for_agent H f a now = Inl e) \<and>
    (\<exists>e. get_reportable_checks H f a now = Inl e)"
proof -
  have "runs_on H f a owned now c = Inl TypeError" for owned
    using assms(2,3) malformed_selector_raises [OF assms(4,5)]
    by (cases "ck_assignment_mode c") (simp_all add: runs_on_def)
  moreover have "c \<in> set (list_assignment_candidates f (ag_id a))"
    using assms(1,2) by (simp add: candidate_iff)
  ultimately have "\<exists>e. checks_for_agent H f a owned now = Inl e" for owned
    unfolding checks_for_agent_def by (rule filter_res_Inl [rotated])
  then show ?thesis
    by (simp add: get_checks_for_agent_def get_reportable_checks_def)
qed

section \<open>Witnesses\<close>

definition demo_agent :: "uuid \<Rightarrow> Agent" where
  "demo_agent i = \<lparr>ag_id = i, ag_name = Some ''agent'', ag_tags = Some ['' web ''], ag_status = Some ONLINE,
     ag_approval_status = AA_ACTIVE, ag_last_seen = Some 0, ag_created_at = 0,
     ag_heartbeat_interval = Some (int i * 10), ag_checks_updated_at = None\<rparr>"

definition demo_distributed :: Check where
  "demo_distributed = \<lparr>ck_id = 9, ck_display_name = ''site'', ck_check_type = ''http'', ck_depends_on = None, ck_agent_id = 2,
     ck_enabled = True, ck_assignment_mode = DISTRIBUTE,
     ck_agent_selector = Some [(''tags'', JList [JStr ''web''])], ck_interval_seconds = Some 30,
     ck_created_at = 0, ck_target = ''https://site'', ck_description = None, ck_timeout_seconds = Some 10,
     ck_retry_attempts = Some 2, ck_retry_interval_seconds = 30, ck_resend_notification_after = None,
     ck_tags = None, ck_check_config = None, ck_script_code = None\<rparr>"

definition demo_fleet :: fleet where
  "demo_fleet = \<lparr>agents = [demo_agent 2, demo_agent 3], checks = [demo_distributed]\<rparr>"

definition demo_hashing :: hashing where
  "demo_hashing = \<lparr>sha256_int = (\<lambda>s. of_char (last s)), default_heartbeat_interval = 30\<rparr>"

lemma demo_agents_ok:
  "agents_ok [demo_agent 2, demo_agent 3]" "agents_ok [demo_agent 4, demo_agent 2, demo_agent 3]"
  by (simp_all add: agents_ok_def demo_agent_def valid_uuid_def)

lemma demo_pool:
  "list_active demo_fleet = [demo_agent 2, demo_agent 3]"
  "agent_matches_selector (demo_agent i) (ck_agent_selector demo_distributed) = Inr True"
  "filter_agents_by_selector [demo_agent 2, demo_agent 3] (ck_agent_selector demo_distributed) =
     Inr [demo_agent 2, demo_agent 3]"
  by (simp_all add: list_active_def demo_fleet_def demo_agent_def demo_distributed_def
      filter_agents_by_selector_def agent_matches_selector_def no_tags_def stripped_tags_def
      py_strip_def py_isspace_def dict_get_or_def)

lemma uuid_str_nonempty: "uuid_str u \<noteq> []"
  by (simp add: uuid_str_def Let_def)

lemma last_uuid_str: "last (uuid_str u) = hex_digit (u mod 16)"
proof -
  have "hex_str 32 u = hex_str 31 (u div 16) @ [hex_digit (u mod 16)]"
    using hex_str.simps(2) [of 31 u] by simp
  then show ?thesis by (simp add: uuid_str_def Let_def last_drop)
qed

lemma demo_score:
  "hrw_score demo_hashing c (demo_agent 2) < hrw_score demo_hashing c (demo_agent 3)"
  by (simp add: hrw_score_def demo_hashing_def demo_agent_def last_append last_uuid_str
      uuid_str_nonempty hex_digit_def less_prod_def)

lemmas demo_defs = distribute_owner_def get_assigned_agent_for_check_def handed_off_def
  agent_offline_def offline_at_def heartbeat_interval_def silent_after_def int_or_def
  last_seen_or_created_def DEFAULT_MISSED_INTERVALS_def GRACE_SECONDS_def SECOND_def

lemma demo_owner:
  "distribute_owner demo_hashing demo_distributed [demo_agent 2, demo_agent 3] 0 = Some (demo_agent 3)"
  "get_assigned_agent_for_check demo_hashing demo_distributed [demo_agent 2, demo_agent 3] =
     Some (demo_agent 3)"
  "\<not> handed_off demo_hashing (demo_agent 3) 130000000"
  "handed_off demo_hashing (demo_agent 2) 130000000"
  using demo_score [of demo_distributed] by (simp_all add: demo_defs demo_agent_def)

lemma demo_lists:
  "get_checks_for_agent demo_hashing demo_fleet (demo_agent 2) 0 = Inr []"
  "get_checks_for_agent demo_hashing demo_fleet (demo_agent 3) 0 = Inr [demo_distributed]"
  "get_reportable_checks demo_hashing demo_fleet (demo_agent 3) 0 = Inr [demo_distributed]"
  "assigned_agents_by_check demo_hashing demo_fleet 0 =
     Inr [(demo_distributed, [demo_agent 3], [demo_agent 2, demo_agent 3])]"
proof -
  have f: "checks demo_fleet = [demo_distributed]" "ck_assignment_mode demo_distributed = DISTRIBUTE"
    "ck_enabled demo_distributed" "ag_id (demo_agent i) = i" for i
    by (simp_all add: demo_fleet_def demo_distributed_def demo_agent_def)
  show "get_checks_for_agent demo_hashing demo_fleet (demo_agent 2) 0 = Inr []"
    "get_checks_for_agent demo_hashing demo_fleet (demo_agent 3) 0 = Inr [demo_distributed]"
    "get_reportable_checks demo_hashing demo_fleet (demo_agent 3) 0 = Inr [demo_distributed]"
    "assigned_agents_by_check demo_hashing demo_fleet 0 =
     Inr [(demo_distributed, [demo_agent 3], [demo_agent 2, demo_agent 3])]"
    by (simp_all add: get_checks_for_agent_def get_reportable_checks_def checks_for_agent_def
        assigned_agents_by_check_def assigned_to_def list_enabled_def runs_on_def
        list_assignment_candidates_def f demo_pool demo_owner)
qed

theorem distribute_owner_stays_witness:
  "distribute_owner demo_hashing demo_distributed [demo_agent 2, demo_agent 3] 130000000 =
     Some (demo_agent 3)"
  using distribute_owner_stays [OF demo_agents_ok(1) demo_owner(1) _ demo_owner(3)] by simp

theorem owned_is_reportable_witness:
  "\<exists>rs. get_reportable_checks demo_hashing demo_fleet (demo_agent 3) 0 = Inr rs \<and>
     set [demo_distributed] \<subseteq> set rs"
  by (rule owned_is_reportable [OF demo_lists(2)])

theorem distributed_exactly_once_witness:
  "\<exists>!a. a \<in> set (list_active demo_fleet) \<and>
     demo_distributed \<in> set (if ag_id a = 3 then [demo_distributed] else [])"
proof (rule distributed_exactly_once [where H = demo_hashing and now = 0])
  show "filter_agents_by_selector (list_active demo_fleet) (ck_agent_selector demo_distributed) =
      Inr [demo_agent 2, demo_agent 3]" by (simp add: demo_pool)
  show "\<forall>a\<in>set (list_active demo_fleet). get_checks_for_agent demo_hashing demo_fleet a 0 =
      Inr (if ag_id a = 3 then [demo_distributed] else [])"
    using demo_lists by (simp add: demo_pool demo_agent_def)
  show "agents_ok (list_active demo_fleet)" by (simp add: demo_pool demo_agents_ok)
qed (simp_all add: demo_fleet_def demo_distributed_def)

theorem assignment_two_views_witness:
  "demo_agent 3 \<in> set [demo_agent 3] \<longleftrightarrow> demo_distributed \<in> set [demo_distributed]"
  using assignment_two_views [OF _ _ demo_lists(4) _ demo_lists(2,3)] demo_agents_ok
  by (simp add: demo_pool)

theorem hrw_minimal_disruption_witness:
  "get_assigned_agent_for_check demo_hashing demo_distributed
     (filter (\<lambda>a. a \<noteq> demo_agent 2) [demo_agent 2, demo_agent 3]) = Some (demo_agent 3)"
proof -
  have "demo_agent 2 \<noteq> demo_agent 3" by (simp add: demo_agent_def)
  then show ?thesis using hrw_minimal_disruption [OF demo_agents_ok(2) demo_owner(2)] by blast
qed

definition demo_broken_fleet :: fleet where
  "demo_broken_fleet = demo_fleet\<lparr>checks :=
     [demo_distributed\<lparr>ck_agent_selector := Some [(''agent_ids'', JInt 5)]\<rparr>]\<rparr>"

theorem malformed_selector_blocks_fleet_witness:
  "(\<exists>e. get_checks_for_agent demo_hashing demo_broken_fleet (demo_agent 2) 0 = Inl e) \<and>
   (\<exists>e. get_reportable_checks demo_hashing demo_broken_fleet (demo_agent 2) 0 = Inl e)"
  by (rule malformed_selector_blocks_fleet
      [of "demo_distributed\<lparr>ck_agent_selector := Some [(''agent_ids'', JInt 5)]\<rparr>" _
        "[(''agent_ids'', JInt 5)]" "JInt 5"])
    (simp_all add: demo_broken_fleet_def demo_distributed_def)

end
