(* ===== verification/Notifications.thy ===== *)
theory Notifications
  imports Assignment
begin

text \<open>
  The alert tables and the sending of notifications: the rows of
  \<^verbatim>\<open>models/alert_model.py\<close>, \<^verbatim>\<open>alert_check_mapping_model.py\<close>,
  \<^verbatim>\<open>alert_notification_mapping_model.py\<close>, \<^verbatim>\<open>notification_provider_model.py\<close>,
  \<^verbatim>\<open>notification_log_model.py\<close> and \<^verbatim>\<open>check_result_model.py\<close> that the alert engine reads
  and writes, the queries of \<^verbatim>\<open>crud/alert_crud.py\<close>, and
  \<^verbatim>\<open>NotificationCoreService.send_notifications\<close> with its rate limit.

  One evaluation runs at one instant \<open>now\<close>. What a provider does with a
  notification is a parameter: the value its \<^verbatim>\<open>send\<close> returned, or the summary of
  the exception it raised.
\<close>

section \<open>Rows\<close>

datatype AlertTriggerType =
    STATUS_CHANGE | THRESHOLD | REPEATED_FAILURE | SSL_CERT_EXPIRY | NO_DATA | AGENT_OFFLINE

datatype NotificationStatus =
    N_SENT | N_FAILED | N_RETRYING | N_RATE_LIMITED | N_DEDUPLICATED | N_SUPPRESSED

record Alert =
  al_id :: uuid
  al_trigger_type :: AlertTriggerType
  al_trigger_config :: dict
  al_is_enabled :: bool
  al_is_global :: bool
  al_notify_on_recovery :: bool
  al_resend_interval_minutes :: "int option"
  al_max_resends :: "int option"
  al_deleted_at :: "instant option"

record AlertCheckMapping =
  am_alert_id :: uuid
  am_check_id :: uuid
  am_is_enabled :: bool
  am_snoozed_until :: "instant option"
  am_override_resend_interval :: "int option"
  am_override_max_resends :: "int option"

record AlertNotificationMapping =
  an_alert_id :: uuid
  an_provider_id :: uuid
  an_is_enabled :: bool

record NotificationProvider =
  np_id :: uuid
  np_is_enabled :: bool
  np_deleted_at :: "instant option"
  np_rate_limit_count :: "int option"
  np_rate_limit_window_minutes :: "int option"

record NotificationLog =
  nl_alert_id :: uuid
  nl_provider_id :: uuid
  nl_check_result_id :: "uuid option"
  nl_check_id :: "uuid option"
  nl_agent_id :: "uuid option"
  nl_check_success :: bool
  nl_status :: NotificationStatus
  nl_error_message :: "string option"
  nl_notification_hash :: "string option"
  nl_is_resend :: bool
  nl_resend_count :: int
  nl_sent_at :: instant

record CheckResult =
  cr_id :: uuid
  cr_agent_id :: uuid
  cr_check_id :: uuid
  cr_timestamp :: instant
  cr_success :: bool
  cr_latency_ms :: "rat option"
  cr_metrics :: json

record db = fleet +
  alerts :: "Alert list"
  check_mappings :: "AlertCheckMapping list"
  notif_mappings :: "AlertNotificationMapping list"
  providers :: "NotificationProvider list"
  logs :: "NotificationLog list"
  results :: "CheckResult list"

record SendDecision =
  send :: bool
  is_resend :: bool
  resend_count :: int

section \<open>Queries\<close>

definition DEDUP_RELEVANT_STATUSES :: "NotificationStatus list" where
  "DEDUP_RELEVANT_STATUSES =
     [N_SENT, N_FAILED, N_RATE_LIMITED, N_SUPPRESSED, N_DEDUPLICATED]"

definition get_check_mapping :: "db \<Rightarrow> uuid \<Rightarrow> uuid \<Rightarrow> AlertCheckMapping option" where
  "get_check_mapping d aid cid =
     find (\<lambda>m. am_alert_id m = aid \<and> am_check_id m = cid) (check_mappings d)"

definition list_active_alerts_for_check :: "db \<Rightarrow> uuid \<Rightarrow> Alert list" where
  "list_active_alerts_for_check d cid =
     [a. a \<leftarrow> alerts d, m \<leftarrow> check_mappings d,
         am_alert_id m = al_id a \<and> am_check_id m = cid \<and> am_is_enabled m \<and>
         al_is_enabled a \<and> al_deleted_at a = None]"

definition get_recent_results_for_check :: "db \<Rightarrow> uuid \<Rightarrow> nat \<Rightarrow> CheckResult list" where
  "get_recent_results_for_check d cid limit =
     newest_by cr_timestamp limit (filter (\<lambda>r. cr_check_id r = cid) (results d))"

definition get_latest_result_for_check :: "db \<Rightarrow> uuid \<Rightarrow> CheckResult option" where
  "get_latest_result_for_check d cid =
     latest_by cr_timestamp (filter (\<lambda>r. cr_check_id r = cid) (results d))"

definition get_check_result_by_id :: "db \<Rightarrow> uuid \<Rightarrow> CheckResult option" where
  "get_check_result_by_id d rid = find (\<lambda>r. cr_id r = rid) (results d)"

definition list_active_notif_mappings_for_alert :: "db \<Rightarrow> uuid \<Rightarrow> AlertNotificationMapping list" where
  "list_active_notif_mappings_for_alert d aid =
     filter (\<lambda>m. an_alert_id m = aid \<and> an_is_enabled m) (notif_mappings d)"

definition get_last_notification_for_dedup :: "db \<Rightarrow> uuid \<Rightarrow> uuid \<Rightarrow> NotificationLog option" where
  "get_last_notification_for_dedup d aid cid =
     latest_by nl_sent_at
       (filter (\<lambda>l. nl_alert_id l = aid \<and> nl_check_id l = Some cid \<and>
                    nl_status l \<in> set DEDUP_RELEVANT_STATUSES) (logs d))"

definition add_notification_logs :: "db \<Rightarrow> NotificationLog list \<Rightarrow> db" where
  "add_notification_logs d rows = d\<lparr>logs := logs d @ rows\<rparr>"

definition count_for_provider_since :: "db \<Rightarrow> uuid \<Rightarrow> instant \<Rightarrow> NotificationStatus list \<Rightarrow> nat" where
  "count_for_provider_since d pid since statuses =
     length (filter (\<lambda>l. nl_provider_id l = pid \<and> since \<le> nl_sent_at l \<and>
                         nl_status l \<in> set statuses) (logs d))"

text \<open>The live providers among the ids asked for.\<close>

definition get_provider :: "db \<Rightarrow> uuid \<Rightarrow> NotificationProvider option" where
  "get_provider d pid = find (\<lambda>p. np_id p = pid \<and> np_deleted_at p = None) (providers d)"

definition provider_deleted :: "db \<Rightarrow> uuid \<Rightarrow> bool" where
  "provider_deleted d pid =
     (case find (\<lambda>p. np_id p = pid) (providers d) of
        None \<Rightarrow> True | Some p \<Rightarrow> np_deleted_at p \<noteq> None)"

section \<open>Sending\<close>

definition MINUTE :: int where "MINUTE = 60 * 1000000"

text \<open>Both the limit and its window must be set and non-zero.\<close>

definition set_and_positive :: "int option \<Rightarrow> bool" where
  "set_and_positive x = (case x of None \<Rightarrow> False | Some n \<Rightarrow> n \<noteq> 0)"

definition check_rate_limit :: "db \<Rightarrow> instant \<Rightarrow> NotificationProvider \<Rightarrow> bool \<times> string option" where
  "check_rate_limit d now p =
     (case (np_rate_limit_count p, np_rate_limit_window_minutes p) of
        (Some limit, Some window) \<Rightarrow>
          (if limit = 0 \<or> window = 0 then (False, None)
           else
             let count = int (count_for_provider_since d (np_id p) (now - window * MINUTE)
                                [N_SENT, N_RATE_LIMITED])
             in if limit \<le> count
                then (True, Some (''Rate limit exceeded: '' @ int_str count @ ''/'' @ int_str limit @
                       '' notifications in '' @ int_str window @ '' minutes''))
                else (False, None))
      | _ \<Rightarrow> (False, None))"

text \<open>What a provider did: the flag \<^verbatim>\<open>send\<close> returned, or the error summary.\<close>

type_synonym delivery = "uuid \<Rightarrow> bool + string"

definition deliver_one :: "delivery \<Rightarrow> uuid \<Rightarrow> NotificationStatus \<times> string option" where
  "deliver_one dl pid =
     (case dl pid of
        Inl True \<Rightarrow> (N_SENT, None)
      | Inl False \<Rightarrow> (N_FAILED, Some ''Provider returned failure'')
      | Inr e \<Rightarrow> (N_FAILED, Some e))"

text \<open>The gate and, past it, the delivery of one provider. The gates read the
  database as it was before any row of this send.\<close>

definition gate_and_deliver :: "db \<Rightarrow> delivery \<Rightarrow> instant \<Rightarrow> uuid
    \<Rightarrow> py_error + (NotificationStatus \<times> string option)" where
  "gate_and_deliver d dl now pid =
     (case get_provider d pid of
        None \<Rightarrow> Inl (NotFoundException ''Notification provider'')
      | Some p \<Rightarrow>
          (if \<not> np_is_enabled p
           then Inr (N_SUPPRESSED, Some ''Notification provider is disabled'')
           else if fst (check_rate_limit d now p)
           then Inr (N_RATE_LIMITED, snd (check_rate_limit d now p))
           else Inr (deliver_one dl pid)))"

fun outcomes :: "db \<Rightarrow> delivery \<Rightarrow> instant \<Rightarrow> uuid list
    \<Rightarrow> py_error + (uuid \<times> NotificationStatus \<times> string option) list" where
  "outcomes d dl now [] = Inr []"
| "outcomes d dl now (pid # pids) =
     res_bind (gate_and_deliver d dl now pid) (\<lambda>o1.
       res_bind (outcomes d dl now pids) (\<lambda>os. Inr ((pid, o1) # os)))"

text \<open>The subject of a notification and what its rows record of it.\<close>

record notice =
  n_alert_id :: uuid
  n_check_result_id :: "uuid option"
  n_check_id :: "uuid option"
  n_agent_id :: "uuid option"
  n_success :: bool
  n_hash :: "string option"
  n_is_resend :: bool
  n_resend_count :: int

definition log_row :: "notice \<Rightarrow> instant \<Rightarrow> uuid \<Rightarrow> NotificationStatus \<Rightarrow> string option
    \<Rightarrow> NotificationLog" where
  "log_row n now pid status err =
     \<lparr>nl_alert_id = n_alert_id n, nl_provider_id = pid,
      nl_check_result_id = n_check_result_id n, nl_check_id = n_check_id n,
      nl_agent_id = n_agent_id n, nl_check_success = n_success n, nl_status = status,
      nl_error_message = err, nl_notification_hash = n_hash n, nl_is_resend = n_is_resend n,
      nl_resend_count = n_resend_count n, nl_sent_at = now\<rparr>"

definition send_notifications :: "db \<Rightarrow> delivery \<Rightarrow> instant \<Rightarrow> uuid list \<Rightarrow> notice
    \<Rightarrow> py_error + db" where
  "send_notifications d dl now pids n =
     res_bind (outcomes d dl now pids) (\<lambda>os.
       Inr (add_notification_logs d
              (map (\<lambda>(pid, status, err). log_row n now pid status err) os)))"

definition live_provider_ids :: "db \<Rightarrow> uuid \<Rightarrow> uuid list" where
  "live_provider_ids d aid =
     map an_provider_id
       (filter (\<lambda>m. \<not> provider_deleted d (an_provider_id m))
         (list_active_notif_mappings_for_alert d aid))"

definition send_to_providers :: "db \<Rightarrow> delivery \<Rightarrow> instant \<Rightarrow> notice \<Rightarrow> py_error + db" where
  "send_to_providers d dl now n =
     (if live_provider_ids d (n_alert_id n) = [] then Inr d
      else send_notifications d dl now (live_provider_ids d (n_alert_id n)) n)"

section \<open>What a send leaves in the log\<close>

definition log_only :: "db \<Rightarrow> db \<Rightarrow> NotificationLog list \<Rightarrow> bool" where
  "log_only d d' rows \<longleftrightarrow> d' = add_notification_logs d rows"

lemma log_only_refl [simp]: "log_only d d []"
  by (simp add: log_only_def add_notification_logs_def)

text \<open>Only the log changes, by rows of this notice, one per live provider, and every
  one of them counts for de-duplication.\<close>

lemma outcomes_statuses:
  "outcomes d dl now pids = Inr os \<Longrightarrow>
     map fst os = pids \<and> (\<forall>(p, st, e)\<in>set os. st \<in> set DEDUP_RELEVANT_STATUSES)"
proof (induction pids arbitrary: os)
  case Nil
  then show ?case by simp
next
  case (Cons p ps)
  then obtain x xs where x: "gate_and_deliver d dl now p = Inr x"
    and xs: "outcomes d dl now ps = Inr xs" and os: "os = (p, x) # xs"
    by (auto simp: res_bind_Inr_iff)
  from x have "fst x \<in> set DEDUP_RELEVANT_STATUSES"
    by (auto simp: gate_and_deliver_def deliver_one_def DEDUP_RELEVANT_STATUSES_def
        split: option.splits if_splits sum.splits bool.splits)
  with Cons.IH [OF xs] os show ?case by auto
qed

lemma outcomes_total:
  "\<forall>pid\<in>set pids. get_provider d pid \<noteq> None \<Longrightarrow> \<exists>os. outcomes d dl now pids = Inr os"
  by (induction pids) (auto simp: gate_and_deliver_def)

lemma live_provider_found:
  "\<not> provider_deleted d pid \<Longrightarrow> distinct (map np_id (providers d)) \<Longrightarrow> get_provider d pid \<noteq> None"
  by (auto simp: provider_deleted_def get_provider_def find_None_iff find_Some_iff
      split: option.splits)

definition row_of :: "notice \<Rightarrow> instant \<Rightarrow> NotificationLog \<Rightarrow> bool" where
  "row_of n now l \<longleftrightarrow> nl_alert_id l = n_alert_id n \<and> nl_check_id l = n_check_id n \<and>
     nl_agent_id l = n_agent_id n \<and> nl_notification_hash l = n_hash n \<and>
     nl_is_resend l = n_is_resend n \<and> nl_resend_count l = n_resend_count n \<and>
     nl_sent_at l = now \<and> nl_status l \<in> set DEDUP_RELEVANT_STATUSES"

lemma send_to_providers_rows:
  assumes "send_to_providers d dl now n = Inr d'"
  obtains rows where "log_only d d' rows" "length rows = length (live_provider_ids d (n_alert_id n))"
    "\<forall>l\<in>set rows. row_of n now l"
proof (cases "live_provider_ids d (n_alert_id n) = []")
  case True
  with assms that [of "[]"] show ?thesis by (simp add: send_to_providers_def)
next
  case False
  then obtain os where os: "outcomes d dl now (live_provider_ids d (n_alert_id n)) = Inr os"
    and d': "d' = add_notification_logs d (map (\<lambda>(p, st, e). log_row n now p st e) os)"
    using assms by (auto simp: send_to_providers_def send_notifications_def res_bind_Inr_iff)
  let ?rows = "map (\<lambda>(p, st, e). log_row n now p st e) os"
  note facts = outcomes_statuses [OF os]
  from facts have len: "length ?rows = length (live_provider_ids d (n_alert_id n))"
    by (metis length_map)
  have "\<forall>l\<in>set ?rows. row_of n now l"
    using facts by (auto simp: row_of_def log_row_def)
  with d' len show ?thesis by (intro that [of ?rows]) (simp_all add: log_only_def)
qed

section \<open>The rate limit of a provider\<close>

abbreviation rows_since :: "NotificationLog list \<Rightarrow> uuid \<Rightarrow> instant \<Rightarrow> NotificationStatus list
    \<Rightarrow> NotificationLog list" where
  "rows_since ls pid since sts \<equiv>
     filter (\<lambda>l. nl_provider_id l = pid \<and> since \<le> nl_sent_at l \<and> nl_status l \<in> set sts) ls"

lemma count_add:
  "count_for_provider_since (add_notification_logs d rows) pid since sts =
     count_for_provider_since d pid since sts + length (rows_since rows pid since sts)"
  by (simp add: count_for_provider_since_def add_notification_logs_def)

lemma outcomes_elem:
  "outcomes d dl now pids = Inr os \<Longrightarrow> (pid, st, err) \<in> set os \<Longrightarrow> gate_and_deliver d dl now pid = Inr (st, err)"
  by (induction pids arbitrary: os) (auto simp: res_bind_Inr_iff)

lemma sent_not_limited:
  assumes "gate_and_deliver d dl now pid = Inr (N_SENT, err)" "get_provider d pid = Some p"
  shows "\<not> fst (check_rate_limit d now p)"
  using assms by (auto simp: gate_and_deliver_def split: if_splits)

lemma count_mono:
  "set sts \<subseteq> set sts' \<Longrightarrow> count_for_provider_since d pid since sts \<le> count_for_provider_since d pid since sts'"
  unfolding count_for_provider_since_def by (rule length_filter_mono) auto

text \<open>C20: a provider with a rate limit never has more notifications sent within its window than
  the limit allows.\<close>

theorem rate_limit_respected:
  assumes sent: "send_notifications d dl now pids n = Inr d'" and "distinct pids"
    and p: "get_provider d pid = Some p" "np_rate_limit_count p = Some limit"
      "np_rate_limit_window_minutes p = Some window" "limit \<noteq> 0" "window \<noteq> 0"
    and before: "int (count_for_provider_since d pid (now - window * MINUTE) [N_SENT]) \<le> limit"
  shows "int (count_for_provider_since d' pid (now - window * MINUTE) [N_SENT]) \<le> limit"
proof -
  let ?since = "now - window * MINUTE"
  from sent obtain os where os: "outcomes d dl now pids = Inr os"
    and d': "d' = add_notification_logs d (map (\<lambda>(p, st, e). log_row n now p st e) os)"
    by (auto simp: send_notifications_def res_bind_Inr_iff)
  let ?rows = "rows_since (map (\<lambda>(p, st, e). log_row n now p st e) os) pid ?since [N_SENT]"
  have fst: "map fst os = pids" using outcomes_statuses [OF os] by blast
  have "length ?rows \<le> length (filter (\<lambda>x. fst x = pid) os)"
    by (induction os) (auto simp: log_row_def)
  also have "\<dots> = length (filter (\<lambda>x. x = pid) pids)" by (simp add: fst [symmetric] filter_map o_def)
  also have "\<dots> \<le> 1" using \<open>distinct pids\<close> by (induction pids) (auto simp: filter_empty_conv)
  finally have one: "length ?rows \<le> 1" .
  show ?thesis
  proof (cases "?rows = []")
    case True
    with before d' show ?thesis by (simp add: count_add)
  next
    case False
    then obtain err where "(pid, N_SENT, err) \<in> set os"
      by (auto simp: filter_empty_conv log_row_def)
    then have "\<not> fst (check_rate_limit d now p)"
      using outcomes_elem [OF os] sent_not_limited p(1) by blast
    then have "int (count_for_provider_since d (np_id p) ?since [N_SENT, N_RATE_LIMITED]) < limit"
      using p by (auto simp: check_rate_limit_def Let_def split: if_splits)
    moreover have "np_id p = pid" using p(1) by (auto simp: get_provider_def find_Some_iff)
    ultimately have "int (count_for_provider_since d pid ?since [N_SENT]) < limit"
      using count_mono [of "[N_SENT]" "[N_SENT, N_RATE_LIMITED]" d pid ?since] by simp
    with one d' show ?thesis by (simp add: count_add)
  qed
qed

text \<open>Repeated attempts to notify one provider.\<close>

fun attempts :: "delivery \<Rightarrow> uuid \<Rightarrow> notice \<Rightarrow> instant list \<Rightarrow> db \<Rightarrow> py_error + db" where
  "attempts dl pid n [] d = Inr d"
| "attempts dl pid n (t # ts) d = res_bind (send_notifications d dl t [pid] n) (attempts dl pid n ts)"

lemma attempts_snoc:
  "attempts dl pid n (ts @ [t]) d = res_bind (attempts dl pid n ts d) (\<lambda>d1. send_notifications d1 dl t [pid] n)"
proof (induction ts arbitrary: d)
  case (Cons x xs)
  then show ?case by (cases "send_notifications d dl x [pid] n") auto
qed (simp add: res_bind_def split: sum.split)

lemma get_provider_logs [simp]: "get_provider (d\<lparr>logs := ls\<rparr>) = get_provider d"
  by (simp add: get_provider_def fun_eq_iff)

text \<open>The rows after some attempts: one each, the first \<open>limit\<close> sent and the others limited.\<close>

definition starved :: "uuid \<Rightarrow> nat \<Rightarrow> instant list \<Rightarrow> NotificationLog list \<Rightarrow> bool" where
  "starved pid k ts rows \<longleftrightarrow> length rows = length ts \<and> (\<forall>i<length ts.
     nl_provider_id (rows ! i) = pid \<and> nl_sent_at (rows ! i) = ts ! i \<and>
     nl_status (rows ! i) = (if i < k then N_SENT else N_RATE_LIMITED))"

lemma starved_count:
  assumes "starved pid k ts rows" "k \<le> length ts" "sorted ts" "since \<le> ts ! (length ts - k)"
  shows "k \<le> length (rows_since rows pid since [N_SENT, N_RATE_LIMITED])"
proof -
  let ?m = "length ts - k"
  have len: "length rows = length ts" using assms(1) by (simp add: starved_def)
  have "nl_provider_id l = pid \<and> since \<le> nl_sent_at l \<and> nl_status l \<in> {N_SENT, N_RATE_LIMITED}"
    if "l \<in> set (drop ?m rows)" for l
  proof -
    from that obtain j where "j < length rows - ?m" "l = rows ! (?m + j)"
      by (auto simp: in_set_conv_nth)
    then have i: "?m + j < length ts" "l = rows ! (?m + j)" using len by auto
    have "ts ! ?m \<le> ts ! (?m + j)" using assms(3) i(1) by (intro sorted_nth_mono) auto
    with i assms(1,4) show ?thesis by (auto simp: starved_def)
  qed
  then have "filter (\<lambda>l. nl_provider_id l = pid \<and> since \<le> nl_sent_at l \<and>
      nl_status l \<in> set [N_SENT, N_RATE_LIMITED]) (drop ?m rows) = drop ?m rows"
    by (intro filter_True) auto
  moreover have "length (rows_since rows pid since [N_SENT, N_RATE_LIMITED]) \<ge>
      length (rows_since (drop ?m rows) pid since [N_SENT, N_RATE_LIMITED])"
    by (subst append_take_drop_id [of ?m rows, symmetric]) (simp del: append_take_drop_id)
  ultimately show ?thesis using len assms(2) by simp
qed

lemma attempt_once:
  assumes p: "get_provider d pid = Some p" "np_is_enabled p" "np_rate_limit_count p = Some (int k)"
      "np_rate_limit_window_minutes p = Some w" "0 < k" "w \<noteq> 0" and ok: "dl pid = Inl True"
    and old: "\<forall>l\<in>set (logs d). nl_provider_id l \<noteq> pid" and s: "starved pid k ts rows"
    and "sorted ts" and close: "k \<le> length ts \<Longrightarrow> t - ts ! (length ts - k) \<le> w * MINUTE"
  shows "\<exists>l. send_notifications (add_notification_logs d rows) dl t [pid] n =
      Inr (add_notification_logs d (rows @ [l])) \<and> starved pid k (ts @ [t]) (rows @ [l])"
proof -
  let ?d = "add_notification_logs d rows" and ?since = "t - w * MINUTE"
  have pid: "np_id p = pid" using p(1) by (auto simp: get_provider_def find_Some_iff)
  have none: "count_for_provider_since d pid since sts = 0" for since sts
    using old by (auto simp: count_for_provider_since_def filter_empty_conv)
  have count: "count_for_provider_since ?d pid ?since [N_SENT, N_RATE_LIMITED] =
      length (rows_since rows pid ?since [N_SENT, N_RATE_LIMITED])"
    by (simp add: count_add none)
  have limited: "fst (check_rate_limit ?d t p) \<longleftrightarrow> k \<le> length ts"
  proof (cases "k \<le> length ts")
    case True
    with close s \<open>sorted ts\<close> have "k \<le> length (rows_since rows pid ?since [N_SENT, N_RATE_LIMITED])"
      by (intro starved_count) auto
    with True p pid count show ?thesis by (simp add: check_rate_limit_def Let_def)
  next
    case False
    have "length (rows_since rows pid ?since [N_SENT, N_RATE_LIMITED]) \<le> length ts"
      using s by (metis length_filter_le starved_def)
    with False p pid count show ?thesis by (simp add: check_rate_limit_def Let_def)
  qed
  let ?st = "if k \<le> length ts then N_RATE_LIMITED else N_SENT"
  have "get_provider ?d pid = Some p" using p(1) by (simp add: add_notification_logs_def)
  then obtain err where "gate_and_deliver ?d dl t pid = Inr (?st, err)"
    using p(2) ok limited by (auto simp: gate_and_deliver_def deliver_one_def)
  then have "send_notifications ?d dl t [pid] n = Inr (add_notification_logs d (rows @ [log_row n t pid ?st err]))"
    by (simp add: send_notifications_def add_notification_logs_def)
  moreover have "starved pid k (ts @ [t]) (rows @ [log_row n t pid ?st err])"
    using s by (auto simp: starved_def nth_append log_row_def less_Suc_eq)
  ultimately show ?thesis by blast
qed

text \<open>C21: limited attempts count against the limit they were refused under. A provider that is tried
  so often that each attempt finds \<open>k\<close> earlier ones within the window, \<open>k\<close> its limit, sends the
  first \<open>k\<close> notifications and then nothing, for as long as the attempts go on.\<close>

theorem rate_limit_starves:
  assumes p: "get_provider d pid = Some p" "np_is_enabled p" "np_rate_limit_count p = Some (int k)"
      "np_rate_limit_window_minutes p = Some w" "0 < k" "w \<noteq> 0" and ok: "dl pid = Inl True"
    and old: "\<forall>l\<in>set (logs d). nl_provider_id l \<noteq> pid"
    and ts: "sorted ts" "\<forall>i<length ts. k \<le> i \<longrightarrow> ts ! i - ts ! (i - k) \<le> w * MINUTE"
  shows "\<exists>rows. attempts dl pid n ts d = Inr (add_notification_logs d rows) \<and> length rows = length ts \<and>
    (\<forall>i<length ts. nl_status (rows ! i) = (if i < k then N_SENT else N_RATE_LIMITED))"
proof -
  have "\<exists>rows. attempts dl pid n ts d = Inr (add_notification_logs d rows) \<and> starved pid k ts rows"
    using ts
  proof (induction ts rule: rev_induct)
    case Nil
    show ?case by (intro exI [of _ "[]"]) (simp add: starved_def add_notification_logs_def)
  next
    case (snoc t ts)
    have "\<forall>i<length ts. k \<le> i \<longrightarrow> ts ! i - ts ! (i - k) \<le> w * MINUTE"
    proof (intro allI impI)
      fix i assume "i < length ts" "k \<le> i"
      with snoc.prems(2) [rule_format, of i] show "ts ! i - ts ! (i - k) \<le> w * MINUTE"
        by (simp add: nth_append less_imp_diff_less)
    qed
    with snoc obtain rows where
      rows: "attempts dl pid n ts d = Inr (add_notification_logs d rows)" "starved pid k ts rows"
      by (auto simp: sorted_append)
    have close: "k \<le> length ts \<Longrightarrow> t - ts ! (length ts - k) \<le> w * MINUTE"
      using snoc.prems(2) [rule_format, of "length ts"] p(5) by (auto simp: nth_append split: if_splits)
    have "sorted ts" using snoc.prems(1) by (simp add: sorted_append)
    note once = attempt_once [of d pid p k w dl ts rows t n, OF p ok old rows(2) this close]
    from once rows(1) show ?case by (auto simp: attempts_snoc)
  qed
  then show ?thesis by (auto simp: starved_def)
qed

section \<open>Witnesses\<close>

definition limited_provider :: NotificationProvider where
  "limited_provider = \<lparr>np_id = 40, np_is_enabled = True, np_deleted_at = None,
     np_rate_limit_count = Some 1, np_rate_limit_window_minutes = Some 1\<rparr>"

definition limited_db :: db where
  "limited_db = \<lparr>agents = [], checks = [], alerts = [], check_mappings = [], notif_mappings = [],
     providers = [limited_provider], logs = [], results = []\<rparr>"

definition demo_notice :: notice where
  "demo_notice = \<lparr>n_alert_id = 30, n_check_result_id = None, n_check_id = Some 9, n_agent_id = None,
     n_success = False, n_hash = Some ''status:down'', n_is_resend = False, n_resend_count = 0\<rparr>"

lemma limited_found: "get_provider limited_db 40 = Some limited_provider"
  by (simp add: limited_db_def limited_provider_def get_provider_def)

theorem rate_limit_starves_witness:
  "\<exists>rows. attempts (\<lambda>_. Inl True) 40 demo_notice [0, 60000000, 120000000] limited_db =
       Inr (add_notification_logs limited_db rows) \<and>
     (\<forall>i<3. nl_status (rows ! i) = (if i < 1 then N_SENT else N_RATE_LIMITED))"
proof -
  have "\<forall>i<length [0, 60000000, 120000000]. 1 \<le> i \<longrightarrow>
      [0, 60000000, 120000000] ! i - [0, 60000000, 120000000 :: instant] ! (i - 1) \<le> 1 * MINUTE"
    by (auto simp: MINUTE_def less_Suc_eq numeral_3_eq_3)
  from rate_limit_starves [OF limited_found _ _ _ _ _ _ _ _ this, of "\<lambda>_. Inl True" demo_notice]
  show ?thesis by (auto simp: limited_provider_def limited_db_def numeral_3_eq_3)
qed

theorem rate_limit_respected_witness:
  "\<exists>d'. send_notifications limited_db (\<lambda>_. Inl True) 5 [40] demo_notice = Inr d' \<and>
     int (count_for_provider_since d' 40 (5 - 1 * MINUTE) [N_SENT]) \<le> 1"
proof -
  obtain d' where d': "send_notifications limited_db (\<lambda>_. Inl True) 5 [40] demo_notice = Inr d'"
    by (simp add: send_notifications_def gate_and_deliver_def limited_found)
      (auto simp: limited_provider_def check_rate_limit_def limited_db_def count_for_provider_since_def)
  from rate_limit_respected [OF d' _ limited_found] d' show ?thesis
    by (simp add: limited_provider_def limited_db_def count_for_provider_since_def)
qed

end
