(* ===== verification/Alerts.thy ===== *)
theory Alerts
  imports Notifications
begin

text \<open>
  The alert engine (\<^verbatim>\<open>services/core/alert_evaluation_core_service.py\<close>): per incoming
  result, which alerts fire, and for an alert that fires whether its notification is sent,
  resent, de-duplicated or suppressed. The trigger configuration is the stored JSON; a value
  of the wrong type raises, and the alert's savepoint is rolled back, as in the code.

  Parameters: \<open>py_repr\<close>, Python's printing of a float or a container inside a state key,
  and \<open>sha256_hex\<close>, the digest of a key too long for its column.
\<close>

record lib =
  py_repr :: "json \<Rightarrow> string"
  sha256_hex :: "string \<Rightarrow> string"

definition STATE_KEY_LENGTH :: nat where "STATE_KEY_LENGTH = 64"

section \<open>State keys\<close>

fun py_str :: "lib \<Rightarrow> json \<Rightarrow> string" where
  "py_str L JNull = ''None''"
| "py_str L (JBool b) = (if b then ''True'' else ''False'')"
| "py_str L (JInt n) = int_str n"
| "py_str L (JStr s) = s"
| "py_str L j = py_repr L j"

text \<open>\<open>config.get("days_thresholds") or [config.get("days_threshold", 30)]\<close>.\<close>

definition days_thresholds :: "dict \<Rightarrow> json" where
  "days_thresholds config =
     (let v = dict_get_or config ''days_thresholds'' (JList [])
      in if py_truthy v then v
         else JList [dict_get_or config ''days_threshold'' (JInt 30)])"

text \<open>\<open>sorted\<close> of a list of numbers, which is what the schema lets in; a list of one
  element is not compared, and anything else is taken to raise.\<close>

definition py_sorted :: "json \<Rightarrow> py_error + json list" where
  "py_sorted v =
     (case v of
        JList xs \<Rightarrow>
          (if length xs \<le> 1 then Inr xs
           else if \<forall>x\<in>set xs. py_num x \<noteq> None then Inr (sort_key (\<lambda>x. the (py_num x)) xs)
           else Inl TypeError)
      | _ \<Rightarrow> Inl TypeError)"

definition ssl_certificate :: "json \<Rightarrow> py_error + json" where
  "ssl_certificate metrics =
     res_bind (py_get metrics ''response'' (JDict [])) (\<lambda>resp.
       py_get resp ''ssl_certificate'' JNull)"

text \<open>\<open>x or {}\<close>.\<close>

definition or_empty :: "json \<Rightarrow> json" where
  "or_empty j = (if py_truthy j then j else JDict [])"

fun ssl_band :: "lib \<Rightarrow> json \<Rightarrow> json list \<Rightarrow> py_error + string" where
  "ssl_band L days [] = Inr ''ssl:ok''"
| "ssl_band L days (t # ts) =
     res_bind (py_le days t) (\<lambda>le.
       if le then Inr (''ssl:lte:'' @ py_str L t) else ssl_band L days ts)"

fun trigger_name :: "AlertTriggerType \<Rightarrow> string" where
  "trigger_name STATUS_CHANGE = ''status_change''"
| "trigger_name THRESHOLD = ''threshold''"
| "trigger_name REPEATED_FAILURE = ''repeated_failure''"
| "trigger_name SSL_CERT_EXPIRY = ''ssl_cert_expiry''"
| "trigger_name NO_DATA = ''no_data''"
| "trigger_name AGENT_OFFLINE = ''agent_offline''"

definition state_key :: "lib \<Rightarrow> Alert \<Rightarrow> CheckResult \<Rightarrow> bool \<Rightarrow> py_error + string" where
  "state_key L alert r parent_down =
     (if parent_down then Inr ''parent_down''
      else
        let config = al_trigger_config alert
        in case al_trigger_type alert of
          STATUS_CHANGE \<Rightarrow> Inr (''status:'' @ (if cr_success r then ''up'' else ''down''))
        | THRESHOLD \<Rightarrow>
            Inr (''threshold:'' @ py_str L (dict_get_or config ''metric'' (JStr ''latency_ms'')) @
                 '':'' @ py_str L (dict_get_or config ''operator'' (JStr ''>'')) @
                 '':'' @ py_str L (dict_get_or config ''value'' JNull))
        | REPEATED_FAILURE \<Rightarrow> Inr ''repeated_failure:active''
        | SSL_CERT_EXPIRY \<Rightarrow>
            res_bind (py_sorted (days_thresholds config)) (\<lambda>thresholds.
              res_bind (ssl_certificate (or_empty (cr_metrics r))) (\<lambda>cert.
                res_bind (py_get (or_empty cert) ''days_until_expiration'' JNull) (\<lambda>days.
                  if days = JNull then Inr ''ssl:unknown'' else ssl_band L days thresholds)))
        | t \<Rightarrow> Inr (trigger_name t @ '':active''))"

definition compute_alert_state_key :: "lib \<Rightarrow> Alert \<Rightarrow> CheckResult \<Rightarrow> bool \<Rightarrow> py_error + string" where
  "compute_alert_state_key L alert r parent_down =
     res_bind (state_key L alert r parent_down) (\<lambda>key.
       Inr (if length key \<le> STATE_KEY_LENGTH then key else sha256_hex L key))"

section \<open>Trigger conditions\<close>

definition status_name :: "bool \<Rightarrow> string" where
  "status_name success = (if success then ''success'' else ''error'')"

text \<open>The number a \<^verbatim>\<open>LIMIT\<close> makes of a count: a fraction is cut.\<close>

definition limit_of :: "rat \<Rightarrow> nat" where
  "limit_of q = nat \<lfloor>q\<rfloor>"

definition evaluate_status_change :: "db \<Rightarrow> Alert \<Rightarrow> Check \<Rightarrow> CheckResult \<Rightarrow> dict
    \<Rightarrow> py_error + bool" where
  "evaluate_status_change d alert check r config =
     (let on_status = dict_get_or config ''on_status'' (JList [JStr ''error'']);
          consecutive = dict_get_or config ''consecutive_failures'' (JInt 1)
      in if cr_success r \<and> al_notify_on_recovery alert
         then
           let recent = get_recent_results_for_check d (ck_id check) 2
           in Inr (2 \<le> length recent \<and> \<not> cr_success (recent ! 1))
         else
           res_bind (py_in (status_name (cr_success r)) on_status) (\<lambda>listed.
             if \<not> listed then Inr False
             else case py_num consecutive of
               None \<Rightarrow> Inl TypeError
             | Some q \<Rightarrow>
                 (if 1 < q
                  then
                    let recent = get_recent_results_for_check d (ck_id check) (limit_of q)
                    in if of_nat (length recent) < q then Inr False
                       else Inr (\<forall>x\<in>set recent. \<not> cr_success x)
                  else Inr True)))"

text \<open>\<open>float(s)\<close> of a numeric string is the parameter \<open>parse_float\<close>.\<close>

definition threshold_number :: "(string \<Rightarrow> rat option) \<Rightarrow> json \<Rightarrow> rat option" where
  "threshold_number parse_float v =
     (case v of JStr s \<Rightarrow> parse_float s | _ \<Rightarrow> py_num v)"

definition compare_with :: "json \<Rightarrow> rat \<Rightarrow> rat \<Rightarrow> bool" where
  "compare_with op x y =
     (if op = JStr ''>'' then x > y
      else if op = JStr ''>='' then x \<ge> y
      else if op = JStr ''<'' then x < y
      else if op = JStr ''<='' then x \<le> y
      else if op = JStr ''=='' then x = y
      else False)"

definition evaluate_threshold :: "(string \<Rightarrow> rat option) \<Rightarrow> CheckResult \<Rightarrow> dict \<Rightarrow> bool" where
  "evaluate_threshold parse_float r config =
     (let metric = dict_get_or config ''metric'' (JStr ''latency_ms'');
          op = dict_get_or config ''operator'' (JStr ''>'');
          v = dict_get_or config ''value'' JNull
      in v \<noteq> JNull \<and> metric = JStr ''latency_ms'' \<and>
         (case cr_latency_ms r of
            None \<Rightarrow> False
          | Some current \<Rightarrow>
              (case threshold_number parse_float v of
                 None \<Rightarrow> False | Some limit \<Rightarrow> compare_with op current limit)))"

definition evaluate_repeated_failure :: "db \<Rightarrow> Alert \<Rightarrow> Check \<Rightarrow> CheckResult \<Rightarrow> dict
    \<Rightarrow> py_error + bool" where
  "evaluate_repeated_failure d alert check r config = evaluate_status_change d alert check r config"

definition py_max :: "json \<Rightarrow> py_error + json" where
  "py_max v = res_bind (py_sorted v) (\<lambda>xs. if xs = [] then Inl ValueError else Inr (last xs))"

definition starts_with :: "string \<Rightarrow> string \<Rightarrow> bool" where
  "starts_with p s = (take (length p) s = p)"

definition evaluate_ssl_cert_expiry :: "db \<Rightarrow> Alert \<Rightarrow> Check \<Rightarrow> CheckResult \<Rightarrow> dict
    \<Rightarrow> py_error + bool" where
  "evaluate_ssl_cert_expiry d alert check r config =
     (if \<not> py_truthy (cr_metrics r) then Inr False
      else res_bind (ssl_certificate (cr_metrics r)) (\<lambda>cert.
        if \<not> py_truthy cert then Inr False
        else res_bind (py_get cert ''days_until_expiration'' JNull) (\<lambda>days.
          if days = JNull then Inr True
          else res_bind (py_max (days_thresholds config)) (\<lambda>mx.
            res_bind (py_le days mx) (\<lambda>danger.
              if danger then Inr True
              else if \<not> al_notify_on_recovery alert then Inr False
              else case get_last_notification_for_dedup d (al_id alert) (ck_id check) of
                None \<Rightarrow> Inr False
              | Some l \<Rightarrow>
                  (case nl_notification_hash l of
                     None \<Rightarrow> Inr False
                   | Some h \<Rightarrow> Inr (starts_with ''ssl:lte:'' h \<or> h = ''ssl:unknown'')))))))"

definition should_fire_alert :: "(string \<Rightarrow> rat option) \<Rightarrow> db \<Rightarrow> Alert \<Rightarrow> Check \<Rightarrow> CheckResult
    \<Rightarrow> py_error + bool" where
  "should_fire_alert parse_float d alert check r =
     (case al_trigger_type alert of
        STATUS_CHANGE \<Rightarrow> evaluate_status_change d alert check r (al_trigger_config alert)
      | THRESHOLD \<Rightarrow> Inr (evaluate_threshold parse_float r (al_trigger_config alert))
      | REPEATED_FAILURE \<Rightarrow> evaluate_repeated_failure d alert check r (al_trigger_config alert)
      | SSL_CERT_EXPIRY \<Rightarrow> evaluate_ssl_cert_expiry d alert check r (al_trigger_config alert)
      | _ \<Rightarrow> Inr False)"

section \<open>De-duplication\<close>

definition is_snoozed :: "db \<Rightarrow> instant \<Rightarrow> Alert \<Rightarrow> Check \<Rightarrow> bool" where
  "is_snoozed d now alert check =
     (case get_check_mapping d (al_id alert) (ck_id check) of
        None \<Rightarrow> False
      | Some m \<Rightarrow> (case am_snoozed_until m of None \<Rightarrow> False | Some t \<Rightarrow> now < t))"

definition state_changed_since :: "lib \<Rightarrow> db \<Rightarrow> Alert \<Rightarrow> CheckResult \<Rightarrow> NotificationLog
    \<Rightarrow> py_error + bool" where
  "state_changed_since L d alert r l =
     (case nl_notification_hash l of
        Some h \<Rightarrow> res_bind (compute_alert_state_key L alert r False) (\<lambda>k. Inr (h \<noteq> k))
      | None \<Rightarrow>
          (case Option.bind (nl_check_result_id l) (get_check_result_by_id d) of
             None \<Rightarrow> Inr True
           | Some prior \<Rightarrow> Inr (cr_success prior \<noteq> cr_success r)))"

abbreviation fresh_send :: SendDecision where
  "fresh_send \<equiv> \<lparr>send = True, is_resend = False, resend_count = 0\<rparr>"

abbreviation no_send :: SendDecision where
  "no_send \<equiv> \<lparr>send = False, is_resend = False, resend_count = 0\<rparr>"

definition resend_decision :: "instant \<Rightarrow> Alert \<Rightarrow> NotificationLog \<Rightarrow> SendDecision" where
  "resend_decision now alert l =
     (case al_resend_interval_minutes alert of
        None \<Rightarrow> no_send
      | Some minutes \<Rightarrow>
          (if now - nl_sent_at l < minutes * MINUTE then no_send
           else
             let next_count = nl_resend_count l + 1
             in case al_max_resends alert of
               Some cap \<Rightarrow>
                 (if cap < next_count
                  then \<lparr>send = False, is_resend = True, resend_count = nl_resend_count l\<rparr>
                  else \<lparr>send = True, is_resend = True, resend_count = next_count\<rparr>)
             | None \<Rightarrow> \<lparr>send = True, is_resend = True, resend_count = next_count\<rparr>))"

definition should_send_notification :: "lib \<Rightarrow> db \<Rightarrow> instant \<Rightarrow> Alert \<Rightarrow> Check \<Rightarrow> CheckResult
    \<Rightarrow> py_error + SendDecision" where
  "should_send_notification L d now alert check r =
     (if is_snoozed d now alert check then Inr no_send
      else case get_last_notification_for_dedup d (al_id alert) (ck_id check) of
        None \<Rightarrow> Inr fresh_send
      | Some l \<Rightarrow>
          res_bind (state_changed_since L d alert r l) (\<lambda>changed.
            Inr (if changed then fresh_send else resend_decision now alert l)))"

section \<open>Suppression under a parent that is down\<close>

definition should_log_suppression :: "db \<Rightarrow> Alert \<Rightarrow> Check \<Rightarrow> string \<Rightarrow> bool" where
  "should_log_suppression d alert check key =
     (case get_last_notification_for_dedup d (al_id alert) (ck_id check) of
        None \<Rightarrow> True
      | Some l \<Rightarrow> nl_notification_hash l \<noteq> Some key)"

definition parent_is_down :: "db \<Rightarrow> Check \<Rightarrow> bool" where
  "parent_is_down d check =
     (case ck_depends_on check of
        None \<Rightarrow> False
      | Some pid \<Rightarrow>
          (case get_latest_result_for_check d pid of None \<Rightarrow> False | Some p \<Rightarrow> \<not> cr_success p))"

definition parent_name :: "db \<Rightarrow> Check \<Rightarrow> string" where
  "parent_name d check =
     (case find (\<lambda>c. Some (ck_id c) = ck_depends_on check) (checks d) of
        None \<Rightarrow> ''parent'' | Some p \<Rightarrow> ck_display_name p)"

definition result_notice :: "Alert \<Rightarrow> Check \<Rightarrow> CheckResult \<Rightarrow> string \<Rightarrow> SendDecision \<Rightarrow> notice" where
  "result_notice alert check r key dec =
     \<lparr>n_alert_id = al_id alert, n_check_result_id = Some (cr_id r),
      n_check_id = Some (ck_id check), n_agent_id = None, n_success = cr_success r,
      n_hash = Some key, n_is_resend = is_resend dec, n_resend_count = resend_count dec\<rparr>"

text \<open>Whether the alert is suppressed, and the database with the suppression rows of
  a first occurrence.\<close>

definition suppression_reason :: "db \<Rightarrow> Check \<Rightarrow> string" where
  "suppression_reason d check =
     ''Suppressed: parent check '' @ [CHR 0x27] @ parent_name d check @ [CHR 0x27] @ '' is down''"

definition suppression_logs :: "db \<Rightarrow> instant \<Rightarrow> Alert \<Rightarrow> Check \<Rightarrow> CheckResult \<Rightarrow> string
    \<Rightarrow> NotificationLog list" where
  "suppression_logs d now alert check r key =
     map (\<lambda>pid. log_row (result_notice alert check r key no_send) now pid N_SUPPRESSED
            (Some (suppression_reason d check)))
       (live_provider_ids d (al_id alert))"

definition handle_parent_suppression :: "lib \<Rightarrow> db \<Rightarrow> instant \<Rightarrow> Alert \<Rightarrow> Check \<Rightarrow> CheckResult
    \<Rightarrow> py_error + (bool \<times> db)" where
  "handle_parent_suppression L d now alert check r =
     (if \<not> parent_is_down d check then Inr (False, d)
      else res_bind (compute_alert_state_key L alert r True) (\<lambda>key.
        Inr (True,
             if should_log_suppression d alert check key
             then add_notification_logs d (suppression_logs d now alert check r key)
             else d)))"

section \<open>Firing\<close>

definition is_recovery :: "lib \<Rightarrow> Alert \<Rightarrow> CheckResult \<Rightarrow> py_error + bool" where
  "is_recovery L alert r =
     (if \<not> al_notify_on_recovery alert then Inr False
      else if al_trigger_type alert = SSL_CERT_EXPIRY
      then res_bind (compute_alert_state_key L alert r False) (\<lambda>k. Inr (k = ''ssl:ok''))
      else Inr (cr_success r))"

definition fire_past_suppression :: "lib \<Rightarrow> db \<Rightarrow> delivery \<Rightarrow> instant \<Rightarrow> Alert \<Rightarrow> Check \<Rightarrow> CheckResult
    \<Rightarrow> py_error + db" where
  "fire_past_suppression L d dl now alert check r =
     res_bind (should_send_notification L d now alert check r) (\<lambda>dec.
       if \<not> send dec then Inr d
       else res_bind (compute_alert_state_key L alert r False) (\<lambda>key.
         send_to_providers d dl now (result_notice alert check r key dec)))"

definition fire_alert :: "lib \<Rightarrow> db \<Rightarrow> delivery \<Rightarrow> instant \<Rightarrow> Alert \<Rightarrow> Check \<Rightarrow> CheckResult
    \<Rightarrow> py_error + db" where
  "fire_alert L d dl now alert check r =
     res_bind (is_recovery L alert r) (\<lambda>recovery.
       if recovery then fire_past_suppression L d dl now alert check r
       else res_bind (handle_parent_suppression L d now alert check r) (\<lambda>(suppressed, d1).
         if suppressed then Inr d1 else fire_past_suppression L d1 dl now alert check r))"

definition evaluate_alert :: "lib \<Rightarrow> (string \<Rightarrow> rat option) \<Rightarrow> delivery \<Rightarrow> instant \<Rightarrow> Check
    \<Rightarrow> CheckResult \<Rightarrow> Alert \<Rightarrow> db \<Rightarrow> py_error + db" where
  "evaluate_alert L pf dl now check r alert d =
     res_bind (should_fire_alert pf d alert check r) (\<lambda>fire.
       if fire then fire_alert L d dl now alert check r else Inr d)"

text \<open>One savepoint per alert: an exception rolls that alert back and is logged.\<close>

definition in_savepoint :: "(db \<Rightarrow> py_error + db) \<Rightarrow> db \<Rightarrow> db" where
  "in_savepoint f d = (case f d of Inl _ \<Rightarrow> d | Inr d' \<Rightarrow> d')"

definition SILENCE_TRIGGER_TYPES :: "AlertTriggerType list" where
  "SILENCE_TRIGGER_TYPES = [NO_DATA, AGENT_OFFLINE]"

definition evaluate_check_result :: "lib \<Rightarrow> (string \<Rightarrow> rat option) \<Rightarrow> delivery \<Rightarrow> instant \<Rightarrow> Check
    \<Rightarrow> CheckResult \<Rightarrow> db \<Rightarrow> db" where
  "evaluate_check_result L pf dl now check r d =
     foldl (\<lambda>d1 alert.
        if al_trigger_type alert \<in> set SILENCE_TRIGGER_TYPES then d1
        else in_savepoint (evaluate_alert L pf dl now check r alert) d1)
       d (list_active_alerts_for_check d (ck_id check))"

section \<open>De-duplicated channels\<close>

text \<open>The contract the engine keeps with whoever reads the notifications of one subject:
  an event whose state key is the one last notified adds nothing, any other adds itself.
  What was notified is then the sequence of keys with repetitions removed.\<close>

fun all_ready :: "('e \<Rightarrow> 's \<Rightarrow> bool) \<Rightarrow> ('e \<Rightarrow> 's \<Rightarrow> 's) \<Rightarrow> 'e list \<Rightarrow> 's \<Rightarrow> bool" where
  "all_ready ready notify [] s = True"
| "all_ready ready notify (e # es) s =
     (ready e s \<and> all_ready ready notify es (notify e s))"

locale dedup_channel =
  fixes key :: "'e \<Rightarrow> string"
    and ready :: "'e \<Rightarrow> 's \<Rightarrow> bool"
    and notify :: "'e \<Rightarrow> 's \<Rightarrow> 's"
    and keys :: "'s \<Rightarrow> string list"
  assumes steady: "ready e s \<Longrightarrow> keys s \<noteq> [] \<Longrightarrow> last (keys s) = key e \<Longrightarrow> keys (notify e s) = keys s"
    and fresh: "ready e s \<Longrightarrow> keys s = [] \<or> last (keys s) \<noteq> key e \<Longrightarrow>
      keys (notify e s) = keys s @ [key e]"
begin

lemma keys_notify:
  "ready e s \<Longrightarrow>
     keys (notify e s) = keys s @ (if keys s \<noteq> [] \<and> last (keys s) = key e then [] else [key e])"
  using steady [of e s] fresh [of e s] by auto

lemma keys_run:
  assumes "all_ready ready notify es s" and "keys s = remdups_adj ks"
  shows "keys (fold notify es s) = remdups_adj (ks @ map key es)"
  using assms
proof (induction es arbitrary: s ks)
  case Nil
  then show ?case by simp
next
  case (Cons e es)
  have "keys (notify e s) = remdups_adj (ks @ [key e])"
    using Cons.prems keys_notify [of e s]
    by (cases "ks = []") (auto simp: remdups_adj_snoc_same remdups_adj_snoc_diff)
  with Cons.prems Cons.IH [of "notify e s" "ks @ [key e]"] show ?case by simp
qed

lemma steady_state_silent:
  assumes "all_ready ready notify es s" and "\<forall>e\<in>set es. key e = k"
    and "keys s \<noteq> []" and "last (keys s) = k"
  shows "keys (fold notify es s) = keys s"
  using assms by (induction es arbitrary: s) (auto simp: steady)

end

section \<open>The alert engine as a channel\<close>

definition subject_rows :: "db \<Rightarrow> uuid \<Rightarrow> uuid \<Rightarrow> NotificationLog list" where
  "subject_rows d aid cid =
     filter (\<lambda>l. nl_alert_id l = aid \<and> nl_check_id l = Some cid \<and>
                 nl_status l \<in> set DEDUP_RELEVANT_STATUSES) (logs d)"

text \<open>The states notified for an alert and a check: the rows' keys, the rows of one
  notice counted once.\<close>

definition notified_keys :: "uuid \<Rightarrow> uuid \<Rightarrow> db \<Rightarrow> string list" where
  "notified_keys aid cid d =
     remdups_adj (map (\<lambda>l. case nl_notification_hash l of None \<Rightarrow> [] | Some h \<Rightarrow> h)
       (subject_rows d aid cid))"

definition event_key :: "lib \<Rightarrow> Alert \<Rightarrow> instant \<times> CheckResult \<Rightarrow> string" where
  "event_key L alert e =
     (case compute_alert_state_key L alert (snd e) False of Inl _ \<Rightarrow> [] | Inr k \<Rightarrow> k)"

definition fire_event :: "lib \<Rightarrow> delivery \<Rightarrow> Alert \<Rightarrow> Check \<Rightarrow> instant \<times> CheckResult \<Rightarrow> db \<Rightarrow> db" where
  "fire_event L dl alert check e =
     in_savepoint (\<lambda>d. fire_alert L d dl (fst e) alert check (snd e))"

text \<open>The circumstances in which de-duplication alone decides: no resend interval, no
  parent, no snooze, a live provider, a state key that computes, and a log whose rows for
  the subject carry keys and are in order of time up to now.\<close>

definition undisturbed :: "lib \<Rightarrow> Alert \<Rightarrow> Check \<Rightarrow> instant \<times> CheckResult \<Rightarrow> db \<Rightarrow> bool" where
  "undisturbed L alert check e d \<longleftrightarrow>
     al_resend_interval_minutes alert = None \<and> ck_depends_on check = None \<and>
     \<not> is_snoozed d (fst e) alert check \<and>
     live_provider_ids d (al_id alert) \<noteq> [] \<and> distinct (map np_id (providers d)) \<and>
     (\<exists>k. compute_alert_state_key L alert (snd e) False = Inr k) \<and>
     sorted (map nl_sent_at (subject_rows d (al_id alert) (ck_id check))) \<and>
     (\<forall>l\<in>set (subject_rows d (al_id alert) (ck_id check)).
        nl_sent_at l \<le> fst e \<and> nl_notification_hash l \<noteq> None)"

lemma undisturbed_hash:
  "undisturbed L alert check e d \<Longrightarrow> l \<in> set (subject_rows d (al_id alert) (ck_id check)) \<Longrightarrow>
     \<exists>h. nl_notification_hash l = Some h"
  by (auto simp: undisturbed_def)

lemma get_last_notification_rows:
  "get_last_notification_for_dedup d aid cid = latest_by nl_sent_at (subject_rows d aid cid)"
  by (simp add: get_last_notification_for_dedup_def subject_rows_def)

lemma send_to_providers_ok:
  assumes "live_provider_ids d (n_alert_id n) \<noteq> []" "distinct (map np_id (providers d))"
  obtains rows where "send_to_providers d dl now n = Inr (add_notification_logs d rows)"
    "rows \<noteq> []" "\<forall>l\<in>set rows. row_of n now l"
proof -
  have "\<forall>pid\<in>set (live_provider_ids d (n_alert_id n)). get_provider d pid \<noteq> None"
    using assms(2) live_provider_found [of d] by (auto simp: live_provider_ids_def)
  from outcomes_total [OF this, of dl now] obtain d' where "send_to_providers d dl now n = Inr d'"
    using assms(1) by (auto simp: send_to_providers_def send_notifications_def)
  with send_to_providers_rows [OF this] assms(1) that show ?thesis
    by (metis length_0_conv log_only_def)
qed

lemma subject_rows_add:
  "subject_rows (add_notification_logs d rows) aid cid =
     subject_rows d aid cid @ filter (\<lambda>l. nl_alert_id l = aid \<and> nl_check_id l = Some cid \<and>
       nl_status l \<in> set DEDUP_RELEVANT_STATUSES) rows"
  by (simp add: subject_rows_def add_notification_logs_def)

lemma fire_event_cases:
  assumes u: "undisturbed L alert check e d"
  shows "if subject_rows d (al_id alert) (ck_id check) \<noteq> [] \<and>
            nl_notification_hash (last (subject_rows d (al_id alert) (ck_id check))) =
              Some (event_key L alert e)
         then fire_event L dl alert check e d = d
         else \<exists>rows n. fire_event L dl alert check e d = add_notification_logs d rows \<and> rows \<noteq> [] \<and>
            (\<forall>l\<in>set rows. row_of n (fst e) l) \<and> n_alert_id n = al_id alert \<and>
            n_check_id n = Some (ck_id check) \<and> n_hash n = Some (event_key L alert e)"
proof -
  let ?rows = "subject_rows d (al_id alert) (ck_id check)"
  from u obtain k where k: "compute_alert_state_key L alert (snd e) False = Inr k"
    by (auto simp: undisturbed_def)
  have past: "fire_alert L d dl (fst e) alert check (snd e) =
      fire_past_suppression L d dl (fst e) alert check (snd e)"
    using u k by (simp add: fire_alert_def is_recovery_def handle_parent_suppression_def
        parent_is_down_def undisturbed_def)
  have last: "get_last_notification_for_dedup d (al_id alert) (ck_id check) =
      (if ?rows = [] then None else Some (last ?rows))"
    using u by (simp add: get_last_notification_rows latest_by_sorted undisturbed_def)
  show ?thesis
  proof (cases "?rows \<noteq> [] \<and> nl_notification_hash (last ?rows) = Some k")
    case True
    then have "fire_past_suppression L d dl (fst e) alert check (snd e) = Inr d"
      using u k last by (simp add: fire_past_suppression_def should_send_notification_def
          state_changed_since_def resend_decision_def undisturbed_def)
    with True k past show ?thesis by (simp add: event_key_def fire_event_def in_savepoint_def)
  next
    case False
    have dec: "should_send_notification L d (fst e) alert check (snd e) = Inr fresh_send"
    proof (cases "?rows = []")
      case True
      with u last show ?thesis by (simp add: should_send_notification_def undisturbed_def)
    next
      case nonempty: False
      then obtain h where "nl_notification_hash (last ?rows) = Some h"
        using undisturbed_hash [OF u last_in_set] by blast
      with False nonempty u k last show ?thesis
        by (simp add: should_send_notification_def state_changed_since_def undisturbed_def)
    qed
    let ?n = "result_notice alert check (snd e) k fresh_send"
    obtain rows where "send_to_providers d dl (fst e) ?n = Inr (add_notification_logs d rows)"
      "rows \<noteq> []" "\<forall>l\<in>set rows. row_of ?n (fst e) l"
      using u by (auto simp: undisturbed_def result_notice_def
          intro: send_to_providers_ok [of d ?n dl "fst e"])
    with dec k past have "fire_event L dl alert check e d = add_notification_logs d rows \<and> rows \<noteq> [] \<and>
        (\<forall>l\<in>set rows. row_of ?n (fst e) l)"
      by (simp add: fire_event_def in_savepoint_def fire_past_suppression_def)
    moreover have "n_alert_id ?n = al_id alert" "n_check_id ?n = Some (ck_id check)"
      "n_hash ?n = Some (event_key L alert e)"
      using k by (simp_all add: result_notice_def event_key_def)
    ultimately show ?thesis using False k by (auto simp: event_key_def)
  qed
qed

lemma notified_keys_add:
  assumes "rows \<noteq> []" "\<forall>l\<in>set rows. row_of n now l"
    and "n_alert_id n = aid" "n_check_id n = Some cid" "n_hash n = Some k"
  shows "notified_keys aid cid (add_notification_logs d rows) =
    remdups_adj (map (\<lambda>l. case nl_notification_hash l of None \<Rightarrow> [] | Some h \<Rightarrow> h)
      (subject_rows d aid cid) @ [k])"
proof -
  have "filter (\<lambda>l. nl_alert_id l = aid \<and> nl_check_id l = Some cid \<and>
      nl_status l \<in> set DEDUP_RELEVANT_STATUSES) rows = rows"
    using assms(2-4) by (auto simp: row_of_def intro!: filter_True)
  moreover have "map (\<lambda>l. case nl_notification_hash l of None \<Rightarrow> [] | Some h \<Rightarrow> h) rows =
      replicate (length rows) k"
    using assms(2,5) by (intro replicate_eqI) (auto simp: row_of_def)
  ultimately show ?thesis
    using assms(1) by (simp add: notified_keys_def subject_rows_add remdups_adj_append_replicate)
qed

lemma fire_event_keys:
  assumes u: "undisturbed L alert check e d"
  shows "notified_keys (al_id alert) (ck_id check) (fire_event L dl alert check e d) =
    notified_keys (al_id alert) (ck_id check) d @
      (if notified_keys (al_id alert) (ck_id check) d \<noteq> [] \<and>
          last (notified_keys (al_id alert) (ck_id check) d) = event_key L alert e
       then [] else [event_key L alert e])"
proof -
  let ?rows = "subject_rows d (al_id alert) (ck_id check)"
  let ?h = "\<lambda>l. case nl_notification_hash l of None \<Rightarrow> [] | Some h \<Rightarrow> h"
  have last: "notified_keys (al_id alert) (ck_id check) d \<noteq> [] \<longleftrightarrow> ?rows \<noteq> []"
    "?rows \<noteq> [] \<Longrightarrow> last (notified_keys (al_id alert) (ck_id check) d) = ?h (last ?rows)"
    by (simp_all add: notified_keys_def last_map)
  have same: "?rows \<noteq> [] \<Longrightarrow> nl_notification_hash (last ?rows) = Some (event_key L alert e) \<longleftrightarrow>
      ?h (last ?rows) = event_key L alert e"
    using undisturbed_hash [OF u last_in_set] by fastforce
  show ?thesis
  proof (cases "?rows \<noteq> [] \<and> ?h (last ?rows) = event_key L alert e")
    case True
    with fire_event_cases [OF u, of dl] same last show ?thesis by simp
  next
    case False
    with fire_event_cases [OF u, of dl] same obtain rows n where
      "fire_event L dl alert check e d = add_notification_logs d rows" "rows \<noteq> []"
      "\<forall>l\<in>set rows. row_of n (fst e) l" "n_alert_id n = al_id alert"
      "n_check_id n = Some (ck_id check)" "n_hash n = Some (event_key L alert e)"
      by (auto split: if_splits)
    with notified_keys_add [of rows n "fst e"] False last show ?thesis
      by (auto simp: remdups_adj_snoc_diff last_map notified_keys_def)
  qed
qed

interpretation result_channel: dedup_channel "event_key L alert" "undisturbed L alert check"
  "fire_event L dl alert check" "notified_keys (al_id alert) (ck_id check)"
  by unfold_locales (simp_all add: fire_event_keys)

end
