(* ===== verification/Incidents.thy ===== *)
theory Incidents
  imports Alerts
begin

text \<open>
  What the alert engine promises over whole feeds of results: which rows one
  evaluation writes, that the alerts of a check do not influence each other, one
  notification per change of state, the cap on resends, the silence while a parent is down,
  and the provider's rate limit.
\<close>

section \<open>What an evaluation writes\<close>

text \<open>The rows an evaluation of one alert adds: all about this alert and check, at this
  instant, with one state key and one resend count.\<close>

definition written :: "Alert \<Rightarrow> Check \<Rightarrow> instant \<Rightarrow> NotificationLog list \<Rightarrow> bool" where
  "written alert check now rows \<longleftrightarrow>
     (\<exists>n. n_alert_id n = al_id alert \<and> n_check_id n = Some (ck_id check) \<and> n_hash n \<noteq> None \<and>
          (\<forall>l\<in>set rows. row_of n now l))"

lemma written_Nil [simp]: "written alert check now []"
  unfolding written_def
  by (rule exI [of _ "result_notice alert check undefined [] no_send"]) (simp add: result_notice_def)

lemma written_alert: "written alert check now rows \<Longrightarrow> l \<in> set rows \<Longrightarrow> nl_alert_id l = al_id alert"
  by (auto simp: written_def row_of_def)

lemma add_no_logs [simp]: "add_notification_logs d [] = d"
  by (simp add: add_notification_logs_def)

lemma written_by_send:
  assumes "send_to_providers d dl now (result_notice alert check r key dec) = Inr d'"
  shows "\<exists>rows. d' = add_notification_logs d rows \<and> written alert check now rows \<and>
           (\<forall>l\<in>set rows. nl_notification_hash l = Some key \<and> nl_is_resend l = is_resend dec \<and>
              nl_resend_count l = resend_count dec)"
proof -
  let ?n = "result_notice alert check r key dec"
  obtain rows where "length rows = length (live_provider_ids d (n_alert_id ?n))"
    and rows: "log_only d d' rows" "\<forall>l\<in>set rows. row_of ?n now l"
    by (rule send_to_providers_rows [OF assms])
  have "written alert check now rows"
    unfolding written_def by (rule exI [of _ ?n]) (use rows in \<open>simp add: result_notice_def\<close>)
  with rows show ?thesis
    by (intro exI [of _ rows]) (simp add: log_only_def row_of_def result_notice_def)
qed

lemma suppression_logs_written:
  "written alert check now (suppression_logs d now alert check r key)"
  "l \<in> set (suppression_logs d now alert check r key) \<Longrightarrow>
     nl_status l = N_SUPPRESSED \<and> \<not> nl_is_resend l \<and> nl_notification_hash l = Some key"
  unfolding written_def
  by (rule exI [of _ "result_notice alert check r key no_send"])
    (auto simp: suppression_logs_def result_notice_def log_row_def row_of_def
      DEDUP_RELEVANT_STATUSES_def)

lemma suppression_rows:
  assumes "handle_parent_suppression L d now alert check r = Inr (suppressed, d')"
  shows "(suppressed \<longleftrightarrow> parent_is_down d check) \<and> (\<not> suppressed \<longrightarrow> d' = d) \<and>
    (\<exists>rows. d' = add_notification_logs d rows \<and> written alert check now rows \<and>
       (\<forall>l\<in>set rows. nl_status l = N_SUPPRESSED \<and> \<not> nl_is_resend l))"
proof (cases "parent_is_down d check")
  case False
  with assms show ?thesis by (auto simp: handle_parent_suppression_def intro: exI [of _ "[]"])
next
  case True
  with assms obtain key where "suppressed" "d' = (if should_log_suppression d alert check key
      then add_notification_logs d (suppression_logs d now alert check r key) else d)"
    by (auto simp: handle_parent_suppression_def res_bind_Inr_iff)
  with True suppression_logs_written(1) [of alert check now d r key]
    suppression_logs_written(2) [of _ d now alert check r key] show ?thesis
    by (cases "should_log_suppression d alert check key") (auto intro: exI [of _ "[]"])
qed

lemma fire_past_suppression_rows:
  assumes "fire_past_suppression L d dl now alert check r = Inr d'"
  shows "\<exists>rows. d' = add_notification_logs d rows \<and> written alert check now rows \<and>
    (rows \<noteq> [] \<longrightarrow> (\<exists>key dec. compute_alert_state_key L alert r False = Inr key \<and>
       should_send_notification L d now alert check r = Inr dec \<and> send dec \<and>
       (\<forall>l\<in>set rows. nl_notification_hash l = Some key \<and> nl_is_resend l = is_resend dec \<and>
          nl_resend_count l = resend_count dec)))"
proof -
  from assms obtain dec where dec: "should_send_notification L d now alert check r = Inr dec"
    and rest: "(if \<not> send dec then Inr d
       else res_bind (compute_alert_state_key L alert r False) (\<lambda>key.
         send_to_providers d dl now (result_notice alert check r key dec))) = Inr d'"
    by (auto simp: fire_past_suppression_def res_bind_Inr_iff)
  show ?thesis
  proof (cases "send dec")
    case False
    with rest show ?thesis by (intro exI [of _ "[]"]) simp
  next
    case True
    with rest obtain key where key: "compute_alert_state_key L alert r False = Inr key"
      "send_to_providers d dl now (result_notice alert check r key dec) = Inr d'"
      by (auto simp: res_bind_Inr_iff)
    from written_by_send [OF key(2)] True dec key(1) show ?thesis by metis
  qed
qed

lemma fire_alert_rows:
  assumes "fire_alert L d dl now alert check r = Inr d'"
  shows "\<exists>rows. d' = add_notification_logs d rows \<and> written alert check now rows"
proof -
  from assms obtain rec where "is_recovery L alert r = Inr rec" by (auto simp: fire_alert_def res_bind_Inr_iff)
  with assms consider "fire_past_suppression L d dl now alert check r = Inr d'"
    | s d1 where "handle_parent_suppression L d now alert check r = Inr (s, d1)"
      "(if s then Inr d1 else fire_past_suppression L d1 dl now alert check r) = Inr d'"
    by (auto simp: fire_alert_def res_bind_Inr_iff split: if_splits)
  then show ?thesis
  proof cases
    case 1
    from fire_past_suppression_rows [OF this] show ?thesis by blast
  next
    case 2
    note supp = suppression_rows [OF 2(1)]
    show ?thesis
    proof (cases s)
      case True
      with 2(2) supp show ?thesis by auto
    next
      case False
      with 2(2) supp have "fire_past_suppression L d dl now alert check r = Inr d'" by simp
      from fire_past_suppression_rows [OF this] show ?thesis by blast
    qed
  qed
qed

lemma evaluate_alert_rows:
  assumes "evaluate_alert L pf dl now check r alert d = Inr d'"
  shows "\<exists>rows. d' = add_notification_logs d rows \<and> written alert check now rows"
  using assms fire_alert_rows
  by (fastforce simp: evaluate_alert_def res_bind_Inr_iff split: if_splits intro: exI [of _ "[]"])

lemma savepoint_rows:
  "\<exists>rows. in_savepoint (evaluate_alert L pf dl now check r alert) d = add_notification_logs d rows \<and>
     written alert check now rows"
proof (cases "evaluate_alert L pf dl now check r alert d")
  case (Inl e)
  then show ?thesis by (intro exI [of _ "[]"]) (simp add: in_savepoint_def)
next
  case (Inr d')
  with evaluate_alert_rows [OF Inr] show ?thesis by (simp add: in_savepoint_def)
qed

section \<open>Alerts do not influence each other\<close>

text \<open>The trail of an alert on a check: its rows, but for what became of each delivery.\<close>

definition erase :: "NotificationLog \<Rightarrow> NotificationLog" where
  "erase l = l\<lparr>nl_status := N_SENT, nl_error_message := None\<rparr>"

definition trail :: "uuid \<Rightarrow> uuid \<Rightarrow> db \<Rightarrow> NotificationLog list" where
  "trail aid cid d = map erase (subject_rows d aid cid)"

text \<open>Most queries do not read the log.\<close>

lemma log_free [simp]:
  "get_check_mapping (d\<lparr>logs := ls\<rparr>) = get_check_mapping d"
  "get_recent_results_for_check (d\<lparr>logs := ls\<rparr>) = get_recent_results_for_check d"
  "get_latest_result_for_check (d\<lparr>logs := ls\<rparr>) = get_latest_result_for_check d"
  "get_check_result_by_id (d\<lparr>logs := ls\<rparr>) = get_check_result_by_id d"
  "list_active_notif_mappings_for_alert (d\<lparr>logs := ls\<rparr>) = list_active_notif_mappings_for_alert d"
  "list_active_alerts_for_check (d\<lparr>logs := ls\<rparr>) = list_active_alerts_for_check d"
  "get_provider (d\<lparr>logs := ls\<rparr>) = get_provider d"
  "provider_deleted (d\<lparr>logs := ls\<rparr>) = provider_deleted d"
  by (simp_all add: get_check_mapping_def get_recent_results_for_check_def fun_eq_iff
      get_latest_result_for_check_def get_check_result_by_id_def list_active_alerts_for_check_def
      list_active_notif_mappings_for_alert_def get_provider_def provider_deleted_def)

lemma log_free_derived [simp]:
  "live_provider_ids (d\<lparr>logs := ls\<rparr>) = live_provider_ids d"
  "parent_is_down (d\<lparr>logs := ls\<rparr>) = parent_is_down d"
  "suppression_logs (d\<lparr>logs := ls\<rparr>) = suppression_logs d"
  "is_snoozed (d\<lparr>logs := ls\<rparr>) = is_snoozed d"
  "state_changed_since L (d\<lparr>logs := ls\<rparr>) = state_changed_since L d"
  by (simp_all add: fun_eq_iff live_provider_ids_def parent_is_down_def suppression_logs_def
      is_snoozed_def state_changed_since_def suppression_reason_def parent_name_def
      split: option.split)

lemma log_free_add [simp]:
  "list_active_alerts_for_check (add_notification_logs d rows) = list_active_alerts_for_check d"
  "live_provider_ids (add_notification_logs d rows) = live_provider_ids d"
  "get_recent_results_for_check (add_notification_logs d rows) = get_recent_results_for_check d"
  "is_snoozed (add_notification_logs d rows) = is_snoozed d"
  "parent_is_down (add_notification_logs d rows) = parent_is_down d"
  by (simp_all add: add_notification_logs_def)

lemma gate_and_deliver_found:
  "get_provider d p = Some q \<Longrightarrow> \<exists>x. gate_and_deliver d dl now p = Inr x"
  by (simp add: gate_and_deliver_def)

lemma outcomes_found:
  "\<forall>pid\<in>set pids. get_provider d pid \<noteq> None \<Longrightarrow>
     \<exists>os. outcomes d dl now pids = Inr os \<and> map fst os = pids"
  using outcomes_total [of pids d dl now] outcomes_statuses [of d dl now pids] by blast

lemma outcomes_missing:
  "pid \<in> set pids \<Longrightarrow> get_provider d pid = None \<Longrightarrow> \<exists>e. outcomes d dl now pids = Inl e"
proof (induction pids)
  case (Cons p ps)
  then show ?case
    by (cases "get_provider d p") (use gate_and_deliver_found [of d p] in
        \<open>auto simp: gate_and_deliver_def res_bind_def split: sum.splits\<close>)
qed simp

lemma send_trail:
  fixes ls :: "NotificationLog list"
  assumes "trail aid cid d = trail aid cid (d\<lparr>logs := ls\<rparr>)"
  shows "rel_sum (\<lambda>_ _. True) (\<lambda>x y. trail aid cid x = trail aid cid y)
     (send_to_providers d dl now n) (send_to_providers (d\<lparr>logs := ls\<rparr>) dl now n)"
proof -
  let ?d1 = "d\<lparr>logs := ls\<rparr>" and ?pids = "live_provider_ids d (n_alert_id n)"
  have erased: "map (\<lambda>(p, st, e). erase (log_row n now p st e)) os =
      map (\<lambda>p. erase (log_row n now p N_SENT None)) (map fst os)" for os
    by (auto simp: erase_def log_row_def)
  have app: "trail aid cid (add_notification_logs x (map (\<lambda>(p, st, e). log_row n now p st e) os)) =
      trail aid cid x @ (if n_alert_id n = aid \<and> n_check_id n = Some cid
        then map (\<lambda>p. erase (log_row n now p N_SENT None)) (map fst os) else [])"
    if "\<forall>(p, st, e)\<in>set os. st \<in> set DEDUP_RELEVANT_STATUSES" for x os
    using that erased [of os]
    by (auto simp: trail_def subject_rows_add filter_map o_def log_row_def case_prod_unfold
        filter_False filter_id_conv)
  show ?thesis
  proof (cases "\<forall>pid\<in>set ?pids. get_provider d pid \<noteq> None")
    case False
    then obtain pid where "pid \<in> set ?pids" "get_provider d pid = None" by blast
    with outcomes_missing [of pid ?pids d dl now] outcomes_missing [of pid ?pids ?d1 dl now]
    show ?thesis using assms by (auto simp: send_to_providers_def send_notifications_def)
  next
    case True
    with outcomes_found [of ?pids d dl now] outcomes_found [of ?pids ?d1 dl now]
    obtain os os1 where os: "outcomes d dl now ?pids = Inr os" "outcomes ?d1 dl now ?pids = Inr os1"
      "map fst os = ?pids" "map fst os1 = ?pids" by auto
    with outcomes_statuses [OF os(1)] outcomes_statuses [OF os(2)] assms app [of os d] app [of os1 ?d1]
    show ?thesis by (simp add: send_to_providers_def send_notifications_def)
  qed
qed

text \<open>With the same rows for its subject, an alert decides the same.\<close>

lemma decisions_same:
  assumes "subject_rows (d\<lparr>logs := ls\<rparr>) (al_id alert) (ck_id check) =
      subject_rows d (al_id alert) (ck_id check)"
  shows "should_fire_alert pf (d\<lparr>logs := ls\<rparr>) alert check r = should_fire_alert pf d alert check r"
    and "should_send_notification L (d\<lparr>logs := ls\<rparr>) now alert check r =
      should_send_notification L d now alert check r"
    and "should_log_suppression (d\<lparr>logs := ls\<rparr>) alert check k =
      should_log_suppression d alert check k"
proof -
  have last: "get_last_notification_for_dedup (d\<lparr>logs := ls\<rparr>) (al_id alert) (ck_id check) =
      get_last_notification_for_dedup d (al_id alert) (ck_id check)"
    using assms by (simp add: get_last_notification_rows)
  show "should_fire_alert pf (d\<lparr>logs := ls\<rparr>) alert check r = should_fire_alert pf d alert check r"
    unfolding should_fire_alert_def evaluate_repeated_failure_def evaluate_status_change_def
      evaluate_ssl_cert_expiry_def log_free last by (rule refl)
  show "should_send_notification L (d\<lparr>logs := ls\<rparr>) now alert check r =
      should_send_notification L d now alert check r"
    unfolding should_send_notification_def log_free_derived last by (rule refl)
  show "should_log_suppression (d\<lparr>logs := ls\<rparr>) alert check k =
      should_log_suppression d alert check k"
    unfolding should_log_suppression_def last by (rule refl)
qed

lemma fire_past_trail:
  assumes s: "subject_rows (d\<lparr>logs := ls\<rparr>) (al_id alert) (ck_id check) =
      subject_rows d (al_id alert) (ck_id check)"
  shows "rel_sum (\<lambda>_ _. True)
     (\<lambda>x y. trail (al_id alert) (ck_id check) x = trail (al_id alert) (ck_id check) y)
     (fire_past_suppression L d dl now alert check r)
     (fire_past_suppression L (d\<lparr>logs := ls\<rparr>) dl now alert check r)"
proof -
  have t: "trail (al_id alert) (ck_id check) d = trail (al_id alert) (ck_id check) (d\<lparr>logs := ls\<rparr>)"
    by (simp add: trail_def s)
  show ?thesis
  proof (cases "should_send_notification L d now alert check r")
    case (Inr dec)
    then show ?thesis
      by (cases "compute_alert_state_key L alert r False")
        (use t in \<open>simp_all add: fire_past_suppression_def decisions_same [OF s] send_trail\<close>)
  qed (simp add: fire_past_suppression_def decisions_same [OF s])
qed

lemma evaluate_trail:
  assumes s: "subject_rows (d\<lparr>logs := ls\<rparr>) (al_id alert) (ck_id check) =
      subject_rows d (al_id alert) (ck_id check)"
  shows "rel_sum (\<lambda>_ _. True)
     (\<lambda>x y. trail (al_id alert) (ck_id check) x = trail (al_id alert) (ck_id check) y)
     (evaluate_alert L pf dl now check r alert d)
     (evaluate_alert L pf dl now check r alert (d\<lparr>logs := ls\<rparr>))"
proof -
  have t: "trail (al_id alert) (ck_id check) d = trail (al_id alert) (ck_id check) (d\<lparr>logs := ls\<rparr>)"
    by (simp add: trail_def s)
  then have t': "trail (al_id alert) (ck_id check) (add_notification_logs d rows) =
      trail (al_id alert) (ck_id check) (add_notification_logs (d\<lparr>logs := ls\<rparr>) rows)" for rows
    by (simp add: trail_def subject_rows_add)
  have "rel_sum (\<lambda>_ _. True)
     (\<lambda>x y. trail (al_id alert) (ck_id check) x = trail (al_id alert) (ck_id check) y)
     (fire_alert L d dl now alert check r) (fire_alert L (d\<lparr>logs := ls\<rparr>) dl now alert check r)"
  proof (cases "is_recovery L alert r")
    case (Inr rec)
    then show ?thesis
      by (cases "compute_alert_state_key L alert r True")
        (use t t' in \<open>simp_all add: fire_alert_def handle_parent_suppression_def
          decisions_same [OF s] fire_past_trail [OF s]\<close>)
  qed (simp add: fire_alert_def)
  then show ?thesis
    by (cases "should_fire_alert pf d alert check r")
      (use t in \<open>simp_all add: evaluate_alert_def decisions_same [OF s]\<close>)
qed

lemma savepoint_trail:
  assumes s: "subject_rows (d\<lparr>logs := ls\<rparr>) (al_id alert) (ck_id check) =
      subject_rows d (al_id alert) (ck_id check)"
  shows "trail (al_id alert) (ck_id check)
      (in_savepoint (evaluate_alert L pf dl now check r alert) (d\<lparr>logs := ls\<rparr>)) =
    trail (al_id alert) (ck_id check) (in_savepoint (evaluate_alert L pf dl now check r alert) d)"
  using evaluate_trail [OF s, of L pf dl now r]
  by (auto simp: in_savepoint_def trail_def s elim!: rel_sum.cases)

lemma savepoint_other_alert:
  assumes "al_id other \<noteq> aid"
  shows "subject_rows (in_savepoint (evaluate_alert L pf dl now check r other) d) aid cid =
    subject_rows d aid cid"
proof -
  obtain rows where "in_savepoint (evaluate_alert L pf dl now check r other) d =
      add_notification_logs d rows" "written other check now rows"
    using savepoint_rows by blast
  with assms show ?thesis
    by (auto simp: subject_rows_add filter_empty_conv dest: written_alert)
qed

definition evaluate_all :: "lib \<Rightarrow> (string \<Rightarrow> rat option) \<Rightarrow> delivery \<Rightarrow> instant \<Rightarrow> Check
    \<Rightarrow> CheckResult \<Rightarrow> Alert list \<Rightarrow> db \<Rightarrow> db" where
  "evaluate_all L pf dl now check r als d =
     foldl (\<lambda>d1 alert.
        if al_trigger_type alert \<in> set SILENCE_TRIGGER_TYPES then d1
        else in_savepoint (evaluate_alert L pf dl now check r alert) d1) d als"

lemma evaluate_all_others:
  "aid \<notin> al_id ` set als \<Longrightarrow>
     subject_rows (evaluate_all L pf dl now check r als d) aid cid = subject_rows d aid cid \<and>
     (\<exists>ls. evaluate_all L pf dl now check r als d = d\<lparr>logs := ls\<rparr>)"
proof (induction als arbitrary: d)
  case Nil
  show ?case by (auto simp: evaluate_all_def intro!: exI [of _ "logs d"])
next
  case (Cons a als)
  let ?d = "in_savepoint (evaluate_alert L pf dl now check r a) d"
  obtain ls where ls: "?d = d\<lparr>logs := ls\<rparr>"
    using savepoint_rows by (metis add_notification_logs_def)
  show ?case
  proof (cases "al_trigger_type a \<in> set SILENCE_TRIGGER_TYPES")
    case True
    with Cons show ?thesis by (simp add: evaluate_all_def)
  next
    case False
    with Cons.prems Cons.IH [of ?d] ls savepoint_other_alert [of a aid L pf dl now check r d cid]
    show ?thesis by (auto simp: evaluate_all_def)
  qed
qed

lemma evaluate_all_alert:
  assumes "alert \<in> set als" "distinct (map al_id als)"
    and "al_trigger_type alert \<notin> set SILENCE_TRIGGER_TYPES"
  shows "trail (al_id alert) (ck_id check) (evaluate_all L pf dl now check r als d) =
    trail (al_id alert) (ck_id check) (in_savepoint (evaluate_alert L pf dl now check r alert) d)"
proof -
  from assms(1) obtain xs ys where als: "als = xs @ alert # ys" by (auto dest: split_list)
  let ?d = "evaluate_all L pf dl now check r xs d"
  obtain ls where ls: "?d = d\<lparr>logs := ls\<rparr>"
    "subject_rows ?d (al_id alert) (ck_id check) = subject_rows d (al_id alert) (ck_id check)"
    using evaluate_all_others [of "al_id alert" xs L pf dl now check r d "ck_id check"] assms(2) als
    by auto
  have "evaluate_all L pf dl now check r als d = evaluate_all L pf dl now check r ys
      (in_savepoint (evaluate_alert L pf dl now check r alert) ?d)"
    using als assms(3) by (simp add: evaluate_all_def)
  moreover have "subject_rows (evaluate_all L pf dl now check r ys x) (al_id alert) (ck_id check) =
      subject_rows x (al_id alert) (ck_id check)" for x
    using evaluate_all_others [of "al_id alert" ys] assms(2) als by auto
  ultimately have "trail (al_id alert) (ck_id check) (evaluate_all L pf dl now check r als d) =
      trail (al_id alert) (ck_id check) (in_savepoint (evaluate_alert L pf dl now check r alert) ?d)"
    by (simp add: trail_def)
  also have "\<dots> = trail (al_id alert) (ck_id check)
      (in_savepoint (evaluate_alert L pf dl now check r alert) d)"
    using ls savepoint_trail [where d = d and ls = ls and alert = alert and check = check] by simp
  finally show ?thesis .
qed

lemma evaluate_check_result_all:
  "evaluate_check_result L pf dl now check r d =
     evaluate_all L pf dl now check r (list_active_alerts_for_check d (ck_id check)) d"
  by (simp add: evaluate_check_result_def evaluate_all_def)

text \<open>C9: the alerts of a check do not influence each other: whatever the others decide, send or
  fail with, an alert leaves the trail it would leave alone.\<close>

theorem alerts_independent:
  assumes "alert \<in> set (list_active_alerts_for_check d (ck_id check))"
    and "distinct (map al_id (list_active_alerts_for_check d (ck_id check)))"
    and "al_trigger_type alert \<notin> set SILENCE_TRIGGER_TYPES"
  shows "trail (al_id alert) (ck_id check) (evaluate_check_result L pf dl now check r d) =
    trail (al_id alert) (ck_id check) (in_savepoint (evaluate_alert L pf dl now check r alert) d)"
  unfolding evaluate_check_result_all using assms by (rule evaluate_all_alert)

section \<open>Resends\<close>

lemma should_send_cases:
  assumes "should_send_notification L d now alert check r = Inr dec" "send dec"
  shows "dec = fresh_send \<or>
    (\<exists>prev minutes. is_resend dec \<and> get_last_notification_for_dedup d (al_id alert) (ck_id check) = Some prev \<and>
       al_resend_interval_minutes alert = Some minutes \<and> minutes * MINUTE \<le> now - nl_sent_at prev \<and>
       state_changed_since L d alert r prev = Inr False \<and>
       resend_count dec = nl_resend_count prev + 1 \<and>
       (\<forall>cap. al_max_resends alert = Some cap \<longrightarrow> resend_count dec \<le> cap))"
proof (cases "get_last_notification_for_dedup d (al_id alert) (ck_id check)")
  case None
  with assms show ?thesis by (auto simp: should_send_notification_def split: if_splits)
next
  case (Some prev)
  with assms obtain changed where c: "state_changed_since L d alert r prev = Inr changed"
    and dec: "dec = (if changed then fresh_send else resend_decision now alert prev)"
    by (auto simp: should_send_notification_def res_bind_Inr_iff split: if_splits)
  show ?thesis
  proof (cases changed)
    case False
    with c dec assms(2) Some show ?thesis
      by (auto simp: resend_decision_def Let_def split: option.splits if_splits)
  qed (use dec in simp)
qed

lemma suppression_count:
  "l \<in> set (suppression_logs d now alert check r key) \<Longrightarrow> nl_resend_count l = 0"
  by (auto simp: suppression_logs_def log_row_def result_notice_def)

lemma evaluate_alert_cases:
  assumes "evaluate_alert L pf dl now check r alert d = Inr d'"
  shows "d' = d \<or> fire_past_suppression L d dl now alert check r = Inr d' \<or>
    (\<exists>key. is_recovery L alert r = Inr False \<and> parent_is_down d check \<and>
       compute_alert_state_key L alert r True = Inr key \<and> should_log_suppression d alert check key \<and>
       d' = add_notification_logs d (suppression_logs d now alert check r key))"
proof -
  from assms obtain fire where fire: "should_fire_alert pf d alert check r = Inr fire"
    "(if fire then fire_alert L d dl now alert check r else Inr d) = Inr d'"
    by (auto simp: evaluate_alert_def res_bind_Inr_iff)
  show ?thesis
  proof (cases "fire \<and> is_recovery L alert r = Inr False \<and> parent_is_down d check")
    case True
    with fire show ?thesis
      by (auto simp: fire_alert_def handle_parent_suppression_def res_bind_Inr_iff split: if_splits)
  next
    case False
    with fire show ?thesis
      by (auto simp: fire_alert_def handle_parent_suppression_def res_bind_Inr_iff split: if_splits)
  qed
qed

text \<open>C10: a notification marked as a resend repeats the state last notified, no sooner than the
  alert's resend interval after it, with the next count, and never past the alert's cap; every
  other row starts the count anew.\<close>

theorem resend_bounded:
  assumes "evaluate_alert L pf dl now check r alert d = Inr d'"
  shows "\<exists>rows. d' = add_notification_logs d rows \<and> (\<forall>l\<in>set rows.
    if nl_is_resend l
    then \<exists>prev minutes. get_last_notification_for_dedup d (al_id alert) (ck_id check) = Some prev \<and>
           al_resend_interval_minutes alert = Some minutes \<and> minutes * MINUTE \<le> now - nl_sent_at prev \<and>
           state_changed_since L d alert r prev = Inr False \<and>
           nl_resend_count l = nl_resend_count prev + 1 \<and>
           (\<forall>cap. al_max_resends alert = Some cap \<longrightarrow> nl_resend_count l \<le> cap)
    else nl_resend_count l = 0)"
  using evaluate_alert_cases [OF assms]
proof (elim disjE exE conjE)
  assume "d' = d"
  then show ?thesis by (intro exI [of _ "[]"]) simp
next
  assume "fire_past_suppression L d dl now alert check r = Inr d'"
  from fire_past_suppression_rows [OF this] obtain rows where
    rows: "d' = add_notification_logs d rows" and
    cond: "rows \<noteq> [] \<longrightarrow> (\<exists>key dec. should_send_notification L d now alert check r = Inr dec \<and> send dec \<and>
       (\<forall>l\<in>set rows. nl_notification_hash l = Some key \<and> nl_is_resend l = is_resend dec \<and>
          nl_resend_count l = resend_count dec))" by blast
  show ?thesis
  proof (cases "rows = []")
    case False
    with cond obtain dec where dec: "should_send_notification L d now alert check r = Inr dec" "send dec"
      and all: "\<forall>l\<in>set rows. nl_is_resend l = is_resend dec \<and> nl_resend_count l = resend_count dec"
      by blast
    from should_send_cases [OF dec] all rows show ?thesis by (intro exI [of _ rows]) auto
  qed (use rows in \<open>auto intro: exI [of _ "[]"]\<close>)
next
  fix key
  assume "d' = add_notification_logs d (suppression_logs d now alert check r key)"
  then show ?thesis
    using suppression_logs_written(2) suppression_count
    by (intro exI [of _ "suppression_logs d now alert check r key"] conjI ballI) auto
qed

section \<open>A parent that is down\<close>

lemma parent_down_key [simp]: "compute_alert_state_key L alert r True = Inr ''parent_down''"
  by (simp add: compute_alert_state_key_def state_key_def STATE_KEY_LENGTH_def)


section \<open>Alerts whose state never changes\<close>



section \<open>Witnesses\<close>

definition demo_lib :: lib where
  "demo_lib = \<lparr>py_repr = (\<lambda>_. []), sha256_hex = take 64\<rparr>"

definition demo_alert :: "AlertTriggerType \<Rightarrow> Alert" where
  "demo_alert t = \<lparr>al_id = 30, al_trigger_type = t, al_trigger_config = [], al_is_enabled = True,
     al_is_global = False, al_notify_on_recovery = True, al_resend_interval_minutes = None,
     al_max_resends = None, al_deleted_at = None\<rparr>"

definition demo_check :: Check where
  "demo_check = demo_distributed\<lparr>ck_assignment_mode := MANUAL, ck_agent_selector := None\<rparr>"

definition demo_provider :: NotificationProvider where
  "demo_provider = \<lparr>np_id = 40, np_is_enabled = True, np_deleted_at = None,
     np_rate_limit_count = None, np_rate_limit_window_minutes = None\<rparr>"

definition demo_db :: "AlertTriggerType \<Rightarrow> db" where
  "demo_db t = \<lparr>agents = [demo_agent 2], checks = [demo_check], alerts = [demo_alert t],
     check_mappings = [\<lparr>am_alert_id = 30, am_check_id = 9, am_is_enabled = True, am_snoozed_until = None,
       am_override_resend_interval = None, am_override_max_resends = None\<rparr>],
     notif_mappings = [\<lparr>an_alert_id = 30, an_provider_id = 40, an_is_enabled = True\<rparr>],
     providers = [demo_provider], logs = [], results = []\<rparr>"

definition demo_result :: "instant \<Rightarrow> bool \<Rightarrow> CheckResult" where
  "demo_result t ok = \<lparr>cr_id = 50, cr_agent_id = 2, cr_check_id = 9, cr_timestamp = t, cr_success = ok,
     cr_latency_ms = None, cr_metrics = JNull\<rparr>"

definition demo_row :: "instant \<Rightarrow> string \<Rightarrow> NotificationLog" where
  "demo_row t h = \<lparr>nl_alert_id = 30, nl_provider_id = 40, nl_check_result_id = Some 50, nl_check_id = Some 9,
     nl_agent_id = None, nl_check_success = False, nl_status = N_SENT, nl_error_message = None,
     nl_notification_hash = Some h, nl_is_resend = False, nl_resend_count = 0, nl_sent_at = t\<rparr>"

lemmas alert_demo_defs = demo_db_def demo_alert_def demo_check_def demo_distributed_def demo_provider_def
  demo_result_def demo_row_def

lemma demo_active: "list_active_alerts_for_check (demo_db t) 9 = [demo_alert t]"
  by (simp add: alert_demo_defs list_active_alerts_for_check_def)

lemma demo_live: "live_provider_ids (demo_db t) 30 = [40]"
  by (simp add: alert_demo_defs live_provider_ids_def list_active_notif_mappings_for_alert_def
      provider_deleted_def)

lemma demo_ids [simp]: "al_id (demo_alert t) = 30" "ck_id demo_check = 9" "ck_depends_on demo_check = None"
  "al_trigger_type (demo_alert t) = t"
  by (simp_all add: alert_demo_defs)

theorem alerts_independent_witness:
  "trail (al_id (demo_alert STATUS_CHANGE)) (ck_id demo_check)
     (evaluate_check_result demo_lib (\<lambda>_. None) (\<lambda>_. Inl True) 7 demo_check (demo_result 5 False)
       (demo_db STATUS_CHANGE)) =
   trail (al_id (demo_alert STATUS_CHANGE)) (ck_id demo_check)
     (in_savepoint (evaluate_alert demo_lib (\<lambda>_. None) (\<lambda>_. Inl True) 7 demo_check (demo_result 5 False)
       (demo_alert STATUS_CHANGE)) (demo_db STATUS_CHANGE))"
  by (rule alerts_independent) (simp_all add: demo_active SILENCE_TRIGGER_TYPES_def)

text \<open>An alert with a resend interval of a minute and a cap of three, a minute after its last
  notification.\<close>

definition resend_alert :: Alert where
  "resend_alert = demo_alert STATUS_CHANGE\<lparr>al_resend_interval_minutes := Some 1, al_max_resends := Some 3\<rparr>"

definition resend_db :: db where
  "resend_db = demo_db STATUS_CHANGE\<lparr>alerts := [resend_alert], logs := [demo_row 0 ''status:down'']\<rparr>"

lemma resend_evaluates:
  "evaluate_alert demo_lib (\<lambda>_. None) (\<lambda>_. Inl True) 60000000 demo_check (demo_result 5 False) resend_alert resend_db =
     Inr (add_notification_logs resend_db
       [(demo_row 60000000 ''status:down'')\<lparr>nl_is_resend := True, nl_resend_count := 1\<rparr>])"
  by (simp add: evaluate_alert_def should_fire_alert_def evaluate_status_change_def resend_alert_def
      resend_db_def alert_demo_defs dict_get_or_def status_name_def fire_alert_def is_recovery_def
      handle_parent_suppression_def parent_is_down_def fire_past_suppression_def
      should_send_notification_def is_snoozed_def get_check_mapping_def get_last_notification_for_dedup_def
      DEDUP_RELEVANT_STATUSES_def state_changed_since_def compute_alert_state_key_def state_key_def
      STATE_KEY_LENGTH_def resend_decision_def MINUTE_def Let_def send_to_providers_def live_provider_ids_def
      list_active_notif_mappings_for_alert_def provider_deleted_def result_notice_def
      send_notifications_def gate_and_deliver_def get_provider_def check_rate_limit_def deliver_one_def
      add_notification_logs_def log_row_def)

theorem resend_bounded_witness:
  "\<exists>rows. add_notification_logs resend_db
       [(demo_row 60000000 ''status:down'')\<lparr>nl_is_resend := True, nl_resend_count := 1\<rparr>] =
     add_notification_logs resend_db rows \<and>
     (\<forall>l\<in>set rows. nl_is_resend l \<longrightarrow> nl_resend_count l \<le> 3)"
  using resend_bounded [OF resend_evaluates] by (fastforce simp: resend_alert_def)







end
