(* ===== verification/Ingest.thy ===== *)
theory Ingest
  imports Incidents
begin

text \<open>
  The server's side of a report (\<^verbatim>\<open>services/core/check_result_core_service.py\<close>): each result is
  validated on its own, matched with a check the agent may report for, given the expiry fields of
  its certificate (\<^verbatim>\<open>core/ssl_expiry.py\<close>), inserted unless the check already has a result of that
  instant (\<^verbatim>\<open>crud/check_result_crud.py\<close>), and, once all are inserted, evaluated against the alerts.

  A report is processed at one instant. Parameters: the schema's validation of one result, the
  reading of a UUID and of a date, fresh UUIDs, and the two certificate settings. The columns no
  other component reads (error texts, HTTP status, response data) are left out of the row.
\<close>

section \<open>Certificates\<close>

definition DAY :: int where "DAY = 24 * 3600 * 1000000"

record ingest_env =
  parse_uuid :: "string \<Rightarrow> uuid option"
  uuid7 :: "nat \<Rightarrow> uuid"
  parse_expiry :: "string \<Rightarrow> instant option"
  ssl_cert_warning_days :: int
  ssl_cert_critical_days :: int

definition expiry_dict :: "string \<Rightarrow> json \<Rightarrow> json \<Rightarrow> bool \<Rightarrow> bool \<Rightarrow> bool \<Rightarrow> dict" where
  "expiry_dict state date days expired soon critical =
     [(''state'', JStr state), (''expiration_date'', date), (''days_until_expiration'', days),
      (''expired'', JBool expired), (''expires_soon'', JBool soon), (''expires_critical'', JBool critical)]"

definition ssl_expiry_fields :: "ingest_env \<Rightarrow> instant \<Rightarrow> json \<Rightarrow> py_error + dict" where
  "ssl_expiry_fields E now date =
     (let unknown = expiry_dict ''unknown'' date JNull False False False
      in if \<not> py_truthy date then Inr unknown
         else case date of
           JStr s \<Rightarrow>
             (case parse_expiry E s of
                None \<Rightarrow> Inr unknown
              | Some expires_at \<Rightarrow>
                  let days = (expires_at - now) div DAY;
                      expired = days < 0;
                      soon = 0 \<le> days \<and> days \<le> ssl_cert_warning_days E;
                      critical = 0 \<le> days \<and> days \<le> ssl_cert_critical_days E;
                      state = (if expired then ''expired'' else if critical then ''critical''
                               else if soon then ''soon'' else ''valid'')
                  in Inr (expiry_dict state date (JInt days) expired soon critical))
         | _ \<Rightarrow> Inl TypeError)"

definition dict_merge :: "dict \<Rightarrow> dict \<Rightarrow> dict" where
  "dict_merge a b = foldl (\<lambda>d (k, v). dict_set k v d) a b"

definition compute_ssl_cert_info :: "ingest_env \<Rightarrow> instant \<Rightarrow> json \<Rightarrow> py_error + json" where
  "compute_ssl_cert_info E now raw =
     (case raw of
        JDict d \<Rightarrow>
          res_bind (ssl_expiry_fields E now (dict_get_or d ''expiration_date'' JNull)) (\<lambda>fields.
            Inr (JDict (dict_merge d fields)))
      | _ \<Rightarrow> Inl TypeError)"

section \<open>Results of a report\<close>

record CheckResultCreate =
  rc_result_id :: "string option"
  rc_check_id :: "uuid option"
  rc_check_type :: string
  rc_display_name :: string
  rc_timestamp :: "instant option"
  rc_success :: bool
  rc_latency_ms :: "rat option"
  rc_metrics :: "dict option"

record report_summary =
  results_processed :: nat
  results_failed :: nat
  alerts_evaluated :: nat

text \<open>The metrics with their certificate completed.\<close>

definition with_certificate :: "ingest_env \<Rightarrow> instant \<Rightarrow> dict \<Rightarrow> py_error + dict" where
  "with_certificate E now metrics =
     (case dict_get metrics ''response'' of
        None \<Rightarrow> Inr metrics
      | Some resp \<Rightarrow>
          res_bind (py_in ''ssl_certificate'' resp) (\<lambda>found.
            if \<not> found then Inr metrics
            else case resp of
              JDict r \<Rightarrow>
                res_bind (compute_ssl_cert_info E now (dict_get_or r ''ssl_certificate'' JNull)) (\<lambda>cert.
                  Inr (dict_set ''response'' (JDict (dict_set ''ssl_certificate'' cert r)) metrics))
            | _ \<Rightarrow> Inl TypeError))"

definition result_uuid :: "ingest_env \<Rightarrow> nat \<Rightarrow> string option \<Rightarrow> uuid" where
  "result_uuid E i rid =
     (case rid of
        None \<Rightarrow> uuid7 E i
      | Some s \<Rightarrow> if s = [] then uuid7 E i
                  else (case parse_uuid E s of None \<Rightarrow> uuid7 E i | Some u \<Rightarrow> u))"

text \<open>The row of the \<open>i\<close>-th result, or why it is not stored.\<close>

definition result_row :: "ingest_env \<Rightarrow> instant \<Rightarrow> instant \<Rightarrow> Agent \<Rightarrow> Check list \<Rightarrow> nat
    \<Rightarrow> CheckResultCreate \<Rightarrow> py_error + CheckResult" where
  "result_row E now ts agent cs i rc =
     (case Option.bind (rc_check_id rc) (\<lambda>cid. find (\<lambda>c. ck_id c = cid) cs) of
        None \<Rightarrow> Inl (NotFoundException ''Check'')
      | Some check \<Rightarrow>
          res_bind (with_certificate E now (case rc_metrics rc of None \<Rightarrow> [] | Some m \<Rightarrow> m)) (\<lambda>metrics.
            Inr \<lparr>cr_id = result_uuid E i (rc_result_id rc), cr_agent_id = ag_id agent,
                 cr_check_id = ck_id check,
                 cr_timestamp = (case rc_timestamp rc of None \<Rightarrow> ts | Some t \<Rightarrow> t),
                 cr_success = rc_success rc, cr_latency_ms = rc_latency_ms rc,
                 cr_metrics = (if metrics = [] then JNull else JDict metrics)\<rparr>))"

fun rows_to_insert :: "ingest_env \<Rightarrow> instant \<Rightarrow> instant \<Rightarrow> Agent \<Rightarrow> Check list \<Rightarrow> nat
    \<Rightarrow> CheckResultCreate list \<Rightarrow> CheckResult list \<times> nat" where
  "rows_to_insert E now ts agent cs i [] = ([], 0)"
| "rows_to_insert E now ts agent cs i (rc # rcs) =
     (let (rows, failed) = rows_to_insert E now ts agent cs (Suc i) rcs
      in case result_row E now ts agent cs i rc of
           Inl _ \<Rightarrow> (rows, Suc failed)
         | Inr row \<Rightarrow> (row # rows, failed))"

section \<open>Idempotent insertion\<close>

definition conflicts :: "CheckResult list \<Rightarrow> CheckResult \<Rightarrow> bool" where
  "conflicts rs row \<longleftrightarrow>
     list_ex (\<lambda>r. cr_check_id r = cr_check_id row \<and> cr_timestamp r = cr_timestamp row) rs"

fun insert_statement :: "CheckResult list \<Rightarrow> CheckResult list \<Rightarrow> CheckResult list \<times> CheckResult list" where
  "insert_statement rs [] = (rs, [])"
| "insert_statement rs (row # rows) =
     (if conflicts rs row then insert_statement rs rows
      else let (rs', ins) = insert_statement (rs @ [row]) rows in (rs', row # ins))"

definition INSERT_CHUNK :: nat where "INSERT_CHUNK = 1500"

lemma INSERT_CHUNK_pos [simp]: "0 < INSERT_CHUNK" by (simp add: INSERT_CHUNK_def)

function insert_chunks :: "CheckResult list \<Rightarrow> CheckResult list \<Rightarrow> CheckResult list \<times> CheckResult list" where
  "insert_chunks rs rows =
     (if rows = [] then (rs, [])
      else let (rs1, ins1) = insert_statement rs (take INSERT_CHUNK rows);
               (rs2, ins2) = insert_chunks rs1 (drop INSERT_CHUNK rows)
           in (rs2, ins1 @ ins2))"
  by pat_completeness auto
termination
  by (relation "measure (\<lambda>(rs, rows). length rows)") auto

declare insert_chunks.simps [simp del]

definition bulk_insert_idempotent :: "db \<Rightarrow> CheckResult list \<Rightarrow> db \<times> CheckResult list" where
  "bulk_insert_idempotent d rows =
     (let (rs, ins) = insert_chunks (results d) rows in (d\<lparr>results := rs\<rparr>, ins))"

section \<open>Processing a report\<close>

definition evaluate_inserted :: "lib \<Rightarrow> (string \<Rightarrow> rat option) \<Rightarrow> delivery \<Rightarrow> instant \<Rightarrow> Check list
    \<Rightarrow> CheckResult list \<Rightarrow> db \<Rightarrow> db" where
  "evaluate_inserted L pf dl now cs rows d =
     foldl (\<lambda>d1 r. case find (\<lambda>c. ck_id c = cr_check_id r) cs of
                      None \<Rightarrow> d1
                    | Some c \<Rightarrow> evaluate_check_result L pf dl now c r d1) d rows"

record server =
  sv_lib :: lib
  sv_parse_float :: "string \<Rightarrow> rat option"
  sv_delivery :: delivery
  sv_hashing :: hashing
  sv_env :: ingest_env

definition process_agent_report :: "server \<Rightarrow> instant \<Rightarrow> uuid \<Rightarrow> instant option
    \<Rightarrow> CheckResultCreate list \<Rightarrow> db \<Rightarrow> py_error + (db \<times> report_summary)" where
  "process_agent_report S now aid report_ts rcs d =
     (let ts = (case report_ts of None \<Rightarrow> now | Some t \<Rightarrow> t)
      in case find (\<lambda>a. ag_id a = aid) (agents d) of
           None \<Rightarrow> Inl (NotFoundException ''Agent'')
         | Some agent \<Rightarrow>
             res_bind (get_reportable_checks (sv_hashing S) d agent now) (\<lambda>cs.
               let (rows, failed) = rows_to_insert (sv_env S) now ts agent cs 0 rcs;
                   (d1, inserted) = bulk_insert_idempotent d rows
               in Inr (evaluate_inserted (sv_lib S) (sv_parse_float S) (sv_delivery S) now cs inserted d1,
                       \<lparr>results_processed = length rows, results_failed = failed,
                        alerts_evaluated = length inserted\<rparr>)))"

text \<open>The results the schema accepts, and how many it refuses; \<open>read\<close> is the schema.\<close>

fun validate_results :: "(json \<Rightarrow> CheckResultCreate option) \<Rightarrow> json list \<Rightarrow> CheckResultCreate list \<times> nat" where
  "validate_results read [] = ([], 0)"
| "validate_results read (raw # raws) =
     (let (valid, refused) = validate_results read raws
      in case read raw of None \<Rightarrow> (valid, Suc refused) | Some rc \<Rightarrow> (rc # valid, refused))"

definition process_agent_submission :: "server \<Rightarrow> (json \<Rightarrow> CheckResultCreate option) \<Rightarrow> instant \<Rightarrow> uuid
    \<Rightarrow> instant option \<Rightarrow> json list \<Rightarrow> db \<Rightarrow> py_error + (db \<times> report_summary)" where
  "process_agent_submission S read now aid report_ts raws d =
     (let (valid, refused) = validate_results read raws
      in res_bind (process_agent_report S now aid report_ts valid d) (\<lambda>(d1, s).
           Inr (d1, s\<lparr>results_failed := results_failed s + refused\<rparr>)))"

section \<open>Insertion\<close>

abbreviation result_key :: "CheckResult \<Rightarrow> uuid \<times> instant" where
  "result_key r \<equiv> (cr_check_id r, cr_timestamp r)"

lemma conflicts_iff: "conflicts rs row \<longleftrightarrow> result_key row \<in> result_key ` set rs"
  by (auto simp: conflicts_def list_ex_iff image_iff eq_commute)

lemma insert_statement_fst: "fst (insert_statement rs rows) = rs @ snd (insert_statement rs rows)"
  by (induction rs rows rule: insert_statement.induct) (auto simp: case_prod_unfold Let_def)

lemma insert_statement_append:
  "insert_statement rs (xs @ ys) =
     (let (rs1, ins1) = insert_statement rs xs; (rs2, ins2) = insert_statement rs1 ys
      in (rs2, ins1 @ ins2))"
  by (induction rs xs rule: insert_statement.induct) (auto simp: case_prod_unfold Let_def)

text \<open>Splitting the insert into chunks changes nothing.\<close>

lemma insert_chunks_statement: "insert_chunks rs rows = insert_statement rs rows"
proof (induction rs rows rule: insert_chunks.induct)
  case (1 rs rows)
  obtain rs1 ins1 where s: "insert_statement rs (take INSERT_CHUNK rows) = (rs1, ins1)" by force
  have "rows \<noteq> [] \<Longrightarrow> insert_chunks rs1 (drop INSERT_CHUNK rows) = insert_statement rs1 (drop INSERT_CHUNK rows)"
    by (rule 1) (simp_all add: s)
  with s insert_statement_append [of rs "take INSERT_CHUNK rows" "drop INSERT_CHUNK rows"]
  show ?case by (cases "rows = []") (subst insert_chunks.simps, simp add: Let_def)+
qed

lemma insert_statement_keys:
  "result_key ` set (fst (insert_statement rs rows)) = result_key ` set rs \<union> result_key ` set rows"
  by (induction rs rows rule: insert_statement.induct)
    (auto simp: case_prod_unfold Let_def conflicts_iff)

lemma insert_statement_distinct:
  "distinct (map result_key rs) \<Longrightarrow> distinct (map result_key (fst (insert_statement rs rows)))"
  by (induction rs rows rule: insert_statement.induct)
    (auto simp: case_prod_unfold Let_def conflicts_iff)

lemma insert_statement_known:
  "result_key ` set rows \<subseteq> result_key ` set rs \<Longrightarrow> insert_statement rs rows = (rs, [])"
  by (induction rs rows rule: insert_statement.induct) (auto simp: conflicts_iff)

lemma insert_statement_new: "set (snd (insert_statement rs rows)) \<subseteq> set rows"
  by (induction rs rows rule: insert_statement.induct) (auto simp: case_prod_unfold Let_def)

section \<open>Evaluation writes the log only\<close>

lemma evaluate_all_logs: "\<exists>ls. evaluate_all L pf dl now check r als d = d\<lparr>logs := ls\<rparr>"
proof (induction als arbitrary: d)
  case Nil
  show ?case by (auto simp: evaluate_all_def intro!: exI [of _ "logs d"])
next
  case (Cons a als)
  obtain rows where "in_savepoint (evaluate_alert L pf dl now check r a) d = add_notification_logs d rows"
    using savepoint_rows by blast
  with Cons [of "in_savepoint (evaluate_alert L pf dl now check r a) d"] Cons [of d]
  show ?case by (auto simp: evaluate_all_def add_notification_logs_def)
qed

lemma evaluate_inserted_logs: "\<exists>ls. evaluate_inserted L pf dl now cs rows d = d\<lparr>logs := ls\<rparr>"
proof (induction rows arbitrary: d)
  case Nil
  show ?case by (auto simp: evaluate_inserted_def intro!: exI [of _ "logs d"])
next
  case (Cons r rows)
  let ?d = "case find (\<lambda>c. ck_id c = cr_check_id r) cs of None \<Rightarrow> d
      | Some c \<Rightarrow> evaluate_check_result L pf dl now c r d"
  obtain ls where "?d = d\<lparr>logs := ls\<rparr>"
  proof (cases "find (\<lambda>c. ck_id c = cr_check_id r) cs")
    case None
    then show ?thesis by (intro that [of "logs d"]) simp
  next
    case (Some c)
    obtain ls where "evaluate_check_result L pf dl now c r d = d\<lparr>logs := ls\<rparr>"
      unfolding evaluate_check_result_all using evaluate_all_logs by blast
    with Some show ?thesis by (intro that [of ls]) simp
  qed
  with Cons [of ?d] show ?case by (auto simp: evaluate_inserted_def)
qed

section \<open>Retries\<close>

lemma runs_on_fleet:
  assumes "agents f = agents g"
  shows "runs_on H f a False now c = runs_on H g a False now' c"
proof -
  have same: "list_active f = list_active g" using assms by (simp add: list_active_def)
  show ?thesis unfolding runs_on_def not_False_eq_True if_True same by (rule refl)
qed

lemma reportable_fleet:
  assumes "agents f = agents g" "checks f = checks g"
  shows "get_reportable_checks H f a now = get_reportable_checks H g a now'"
proof -
  have "runs_on H f a False now = runs_on H g a False now'"
    using assms(1) by (intro ext runs_on_fleet)
  with assms(2) show ?thesis
    by (simp add: get_reportable_checks_def checks_for_agent_def list_assignment_candidates_def)
qed

text \<open>Whether a result is stored, and under which check and instant, does not depend on when
  it is processed.\<close>

lemma isl_res_bind: "isl (res_bind r k) \<longleftrightarrow> isl r \<or> isl (k (projr r))"
  by (cases r) simp_all

lemma ssl_expiry_fields_now: "isl (ssl_expiry_fields E now x) = isl (ssl_expiry_fields E now' x)"
  by (cases x) (auto simp: ssl_expiry_fields_def Let_def split: option.splits)

lemma compute_ssl_cert_info_now:
  "isl (compute_ssl_cert_info E now x) = isl (compute_ssl_cert_info E now' x)"
  using ssl_expiry_fields_now
  by (cases x) (simp_all add: compute_ssl_cert_info_def isl_res_bind)

lemma with_certificate_now: "isl (with_certificate E now m) = isl (with_certificate E now' m)"
proof (cases "dict_get m ''response''")
  case (Some resp)
  then show ?thesis
    using compute_ssl_cert_info_now
    by (cases resp) (simp_all add: with_certificate_def isl_res_bind)
qed (simp add: with_certificate_def)

definition row_key :: "py_error + CheckResult \<Rightarrow> (uuid \<times> instant) option" where
  "row_key r = (case r of Inl _ \<Rightarrow> None | Inr row \<Rightarrow> Some (result_key row))"

lemma result_row_key:
  assumes "rc_timestamp rc \<noteq> None"
  shows "row_key (result_row E now ts agent cs i rc) = row_key (result_row E now' ts' agent cs i' rc)"
proof (cases "Option.bind (rc_check_id rc) (\<lambda>cid. find (\<lambda>c. ck_id c = cid) cs)")
  case (Some c)
  let ?m = "case rc_metrics rc of None \<Rightarrow> [] | Some m \<Rightarrow> m"
  show ?thesis
    using assms Some with_certificate_now [of E now ?m now']
    by (cases "with_certificate E now ?m"; cases "with_certificate E now' ?m")
      (auto simp: result_row_def row_key_def)
qed (simp add: result_row_def row_key_def)

lemma rows_to_insert_keys:
  assumes "\<forall>rc\<in>set rcs. rc_timestamp rc \<noteq> None"
  shows "map result_key (fst (rows_to_insert E now ts agent cs i rcs)) =
      map result_key (fst (rows_to_insert E now' ts' agent cs i' rcs)) \<and>
    snd (rows_to_insert E now ts agent cs i rcs) = snd (rows_to_insert E now' ts' agent cs i' rcs)"
  using assms
proof (induction rcs arbitrary: i i')
  case (Cons rc rcs)
  then have "row_key (result_row E now ts agent cs i rc) = row_key (result_row E now' ts' agent cs i' rc)"
    by (intro result_row_key) simp
  with Cons show ?case
    by (auto simp: row_key_def Let_def case_prod_unfold split: sum.splits)
qed simp

lemma rows_to_insert_count:
  "length (fst (rows_to_insert E now ts agent cs i rcs)) +
     snd (rows_to_insert E now ts agent cs i rcs) = length rcs"
  by (induction rcs arbitrary: i) (auto simp: Let_def case_prod_unfold split: sum.splits)

lemma result_row_about:
  assumes "result_row E now ts agent cs i rc = Inr x"
  shows "cr_agent_id x = ag_id agent \<and> cr_check_id x \<in> ck_id ` set cs"
proof (cases "Option.bind (rc_check_id rc) (\<lambda>cid. find (\<lambda>c. ck_id c = cid) cs)")
  case (Some c)
  then have "c \<in> set cs" by (auto simp: bind_eq_Some_conv find_Some_iff)
  with assms Some show ?thesis by (auto simp: result_row_def res_bind_Inr_iff)
qed (use assms in \<open>simp add: result_row_def\<close>)

lemma rows_to_insert_row:
  "row \<in> set (fst (rows_to_insert E now ts agent cs i rcs)) \<Longrightarrow>
     cr_agent_id row = ag_id agent \<and> cr_check_id row \<in> ck_id ` set cs"
proof (induction rcs arbitrary: i)
  case (Cons rc rcs)
  then show ?case
    by (auto simp: Let_def case_prod_unfold split: sum.splits dest: result_row_about)
qed simp

text \<open>What a successful report comes to.\<close>

lemma process_agent_report_Inr:
  assumes "process_agent_report S now aid rts rcs d = Inr (d', s)"
  obtains agent cs rows failed rs ins ls where
    "find (\<lambda>a. ag_id a = aid) (agents d) = Some agent"
    "get_reportable_checks (sv_hashing S) d agent now = Inr cs"
    "rows_to_insert (sv_env S) now (case rts of None \<Rightarrow> now | Some t \<Rightarrow> t) agent cs 0 rcs = (rows, failed)"
    "insert_statement (results d) rows = (rs, ins)"
    "d' = d\<lparr>results := rs, logs := ls\<rparr>"
    "d' = evaluate_inserted (sv_lib S) (sv_parse_float S) (sv_delivery S) now cs ins (d\<lparr>results := rs\<rparr>)"
    "s = \<lparr>results_processed = length rows, results_failed = failed, alerts_evaluated = length ins\<rparr>"
proof -
  let ?ts = "case rts of None \<Rightarrow> now | Some t \<Rightarrow> t"
  from assms obtain agent cs where a: "find (\<lambda>a. ag_id a = aid) (agents d) = Some agent"
    "get_reportable_checks (sv_hashing S) d agent now = Inr cs"
    by (auto simp: process_agent_report_def res_bind_Inr_iff Let_def split: option.splits)
  obtain rows failed where r: "rows_to_insert (sv_env S) now ?ts agent cs 0 rcs = (rows, failed)" by force
  obtain rs ins where i: "insert_statement (results d) rows = (rs, ins)" by force
  have d': "d' = evaluate_inserted (sv_lib S) (sv_parse_float S) (sv_delivery S) now cs ins (d\<lparr>results := rs\<rparr>)"
    and s: "s = \<lparr>results_processed = length rows, results_failed = failed, alerts_evaluated = length ins\<rparr>"
    using assms a r i
    by (simp_all add: process_agent_report_def Let_def bulk_insert_idempotent_def insert_chunks_statement)
  obtain ls where "d' = d\<lparr>results := rs\<rparr>\<lparr>logs := ls\<rparr>"
    using evaluate_inserted_logs d' by blast
  then have "d' = d\<lparr>results := rs, logs := ls\<rparr>" by simp
  from that [OF a r i this d' s] show ?thesis .
qed

text \<open>C13: a report sent again, at whatever later time, changes nothing: no result is stored
  twice and no alert is evaluated twice, and the agent is given the same counts.\<close>

theorem report_retry_noop:
  assumes first: "process_agent_report S now aid rts rcs d = Inr (d', s)"
    and stamped: "\<forall>rc\<in>set rcs. rc_timestamp rc \<noteq> None"
  shows "process_agent_report S now' aid rts' rcs d' = Inr (d', s\<lparr>alerts_evaluated := 0\<rparr>)"
proof -
  from first obtain agent cs rows failed rs ins ls where
    a: "find (\<lambda>a. ag_id a = aid) (agents d) = Some agent"
    and c: "get_reportable_checks (sv_hashing S) d agent now = Inr cs"
    and r: "rows_to_insert (sv_env S) now (case rts of None \<Rightarrow> now | Some t \<Rightarrow> t) agent cs 0 rcs = (rows, failed)"
    and i: "insert_statement (results d) rows = (rs, ins)"
    and d': "d' = d\<lparr>results := rs, logs := ls\<rparr>"
    and s: "s = \<lparr>results_processed = length rows, results_failed = failed, alerts_evaluated = length ins\<rparr>"
    by (rule process_agent_report_Inr)
  obtain rows' failed' where r': "rows_to_insert (sv_env S) now' (case rts' of None \<Rightarrow> now' | Some t \<Rightarrow> t)
      agent cs 0 rcs = (rows', failed')" by force
  have same: "map result_key rows' = map result_key rows" "failed' = failed"
    using rows_to_insert_keys [OF stamped, where E = "sv_env S" and now = now and now' = now' and
        ts = "case rts of None \<Rightarrow> now | Some t \<Rightarrow> t" and ts' = "case rts' of None \<Rightarrow> now' | Some t \<Rightarrow> t" and
        agent = agent and cs = cs and i = 0 and i' = 0] unfolding r r' by simp_all
  then have "length rows' = length rows" by (metis length_map)
  have "result_key ` set rows' = result_key ` set rows" using same(1) by (metis list.set_map)
  then have "insert_statement rs rows' = (rs, [])"
    using insert_statement_keys [of "results d" rows] i by (intro insert_statement_known) auto
  moreover have "get_reportable_checks (sv_hashing S) d' agent now' = Inr cs"
    using c reportable_fleet [of d' d "sv_hashing S" agent now' now] d' by simp
  ultimately show ?thesis
    using a r' same(2) \<open>length rows' = length rows\<close> d' s
    by (simp add: process_agent_report_def Let_def bulk_insert_idempotent_def
        insert_chunks_statement evaluate_inserted_def)
qed

text \<open>C14: however reports arrive, a check has at most one result per instant, every result of the
  report is counted once as processed or failed, and what is stored is the agent's own, for checks
  it may report for.\<close>

theorem report_stores_properly:
  assumes "process_agent_submission S read now aid rts raws d = Inr (d', s)"
    and "distinct (map result_key (results d))"
  shows "distinct (map result_key (results d')) \<and> set (results d) \<subseteq> set (results d') \<and>
    results_processed s + results_failed s = length raws \<and>
    (\<exists>agent cs. ag_id agent = aid \<and> get_reportable_checks (sv_hashing S) d agent now = Inr cs \<and>
       (\<forall>r\<in>set (results d') - set (results d). cr_agent_id r = aid \<and> cr_check_id r \<in> ck_id ` set cs))"
proof -
  have count: "length (fst (validate_results read xs)) + snd (validate_results read xs) = length xs" for xs
    by (induction xs) (auto simp: Let_def case_prod_unfold split: option.splits)
  obtain valid refused where v: "validate_results read raws = (valid, refused)" by force
  with assms(1) obtain s0 where p: "process_agent_report S now aid rts valid d = Inr (d', s0)"
    and s: "s = s0\<lparr>results_failed := results_failed s0 + refused\<rparr>"
    by (auto simp: process_agent_submission_def res_bind_Inr_iff)
  from p obtain agent cs rows failed rs ins ls where
    a: "find (\<lambda>a. ag_id a = aid) (agents d) = Some agent"
    and c: "get_reportable_checks (sv_hashing S) d agent now = Inr cs"
    and r: "rows_to_insert (sv_env S) now (case rts of None \<Rightarrow> now | Some t \<Rightarrow> t) agent cs 0 valid = (rows, failed)"
    and i: "insert_statement (results d) rows = (rs, ins)"
    and d': "d' = d\<lparr>results := rs, logs := ls\<rparr>"
    and s0: "s0 = \<lparr>results_processed = length rows, results_failed = failed, alerts_evaluated = length ins\<rparr>"
    by (rule process_agent_report_Inr)
  have aid: "ag_id agent = aid" using a by (auto simp: find_Some_iff)
  have "distinct (map result_key (results d'))"
    using insert_statement_distinct [OF assms(2), of rows] i d' by simp
  moreover have rs: "rs = results d @ ins" using insert_statement_fst [of "results d" rows] i by simp
  moreover have "results_processed s + results_failed s = length raws"
    using rows_to_insert_count [of "sv_env S" now _ agent cs 0 valid] r count [of raws] v s s0
    by (metis (no_types, lifting) add.assoc fst_conv report_summary.select_convs(1,2)
        report_summary.surjective report_summary.update_convs(2) snd_conv)
  moreover have "\<forall>r\<in>set (results d') - set (results d). cr_agent_id r = aid \<and> cr_check_id r \<in> ck_id ` set cs"
    using insert_statement_new [of "results d" rows] i rs d' aid
      rows_to_insert_row [of _ "sv_env S" now "case rts of None \<Rightarrow> now | Some t \<Rightarrow> t" agent cs 0 valid]
    unfolding r by auto
  ultimately show ?thesis using c aid d' rs by auto
qed

end
