(* ===== verification/StatusFeed.thy ===== *)
theory StatusFeed
  imports Ingest
begin

text \<open>
  The notifications of a check's life: what an alert on the status of a check tells over any
  sequence of reports, end to end from the report handler to the notification log.
\<close>

section \<open>Feeds\<close>


definition plain_result :: "uuid \<Rightarrow> instant \<times> bool \<Rightarrow> CheckResultCreate" where
  "plain_result cid r =
     \<lparr>rc_result_id = None, rc_check_id = Some cid, rc_check_type = ''http'', rc_display_name = [],
      rc_timestamp = Some (fst r), rc_success = snd r, rc_latency_ms = None, rc_metrics = None\<rparr>"


definition status_key :: "bool \<Rightarrow> string" where
  "status_key up = (if up then ''status:up'' else ''status:down'')"


lemma status_key_inj [simp]: "status_key a = status_key b \<longleftrightarrow> a = b"
  by (cases a; cases b) (simp_all add: status_key_def)




section \<open>One step of a status alert\<close>

definition quiet :: "instant \<Rightarrow> NotificationLog list \<Rightarrow> bool" where
  "quiet now rows \<longleftrightarrow> sorted (map nl_sent_at rows) \<and>
     (\<forall>l\<in>set rows. nl_sent_at l \<le> now \<and> nl_notification_hash l \<noteq> None)"

lemma quiet_trail: "quiet now (trail aid cid d) \<longleftrightarrow> quiet now (subject_rows d aid cid)"
  by (simp add: quiet_def trail_def erase_def o_def)

lemma notified_keys_trail:
  "notified_keys aid cid d =
     remdups_adj (map (\<lambda>l. case nl_notification_hash l of None \<Rightarrow> [] | Some h \<Rightarrow> h) (trail aid cid d))"
  by (simp add: notified_keys_def trail_def erase_def o_def)

lemma sorted_const: "\<forall>x\<in>set xs. f x = c \<Longrightarrow> sorted (map f xs)"
  by (induction xs) auto

lemma quiet_step:
  assumes "quiet now0 (subject_rows d aid cid)" "now0 \<le> now"
  shows "quiet now (subject_rows (in_savepoint (evaluate_alert L pf dl now check r alert) d) aid cid)"
proof -
  obtain rows where rows: "in_savepoint (evaluate_alert L pf dl now check r alert) d =
      add_notification_logs d rows" "written alert check now rows"
    using savepoint_rows by blast
  from rows(2) have "\<forall>l\<in>set rows. nl_sent_at l = now \<and> nl_notification_hash l \<noteq> None"
    by (auto simp: written_def row_of_def)
  moreover from this have "sorted (map nl_sent_at (filter P rows))" for P
    by (intro sorted_const [of _ _ now]) auto
  ultimately show ?thesis
    using assms rows(1) by (fastforce simp: quiet_def subject_rows_add sorted_append)
qed

text \<open>The alerts this theory is about.\<close>

definition status_alert :: "Alert \<Rightarrow> bool" where
  "status_alert alert \<longleftrightarrow> al_trigger_type alert = STATUS_CHANGE \<and>
     al_notify_on_recovery alert \<and> al_resend_interval_minutes alert = None"

definition plain_status_alert :: "Alert \<Rightarrow> bool" where
  "plain_status_alert alert \<longleftrightarrow> status_alert alert \<and> al_trigger_config alert = []"

lemma plain_is_status: "plain_status_alert alert \<Longrightarrow> status_alert alert"
  by (simp add: plain_status_alert_def)

lemma status_alert_key:
  "status_alert alert \<Longrightarrow> compute_alert_state_key L alert r False = Inr (status_key (cr_success r))"
  by (simp add: status_alert_def compute_alert_state_key_def state_key_def status_key_def
      STATE_KEY_LENGTH_def)


lemma status_step:
  assumes alert: "status_alert alert"
    and fires: "should_fire_alert pf d alert check r = Inr fire"
    and calm: "ck_depends_on check = None" "\<not> is_snoozed d now alert check"
    and prov: "live_provider_ids d (al_id alert) \<noteq> []" "distinct (map np_id (providers d))"
    and q: "quiet now (subject_rows d (al_id alert) (ck_id check))"
  shows "notified_keys (al_id alert) (ck_id check) (in_savepoint (evaluate_alert L pf dl now check r alert) d) =
    notified_keys (al_id alert) (ck_id check) d @
     (if \<not> fire \<or> notified_keys (al_id alert) (ck_id check) d \<noteq> [] \<and>
         last (notified_keys (al_id alert) (ck_id check) d) = status_key (cr_success r)
      then [] else [status_key (cr_success r)])"
proof (cases fire)
  case False
  with fires show ?thesis by (simp add: evaluate_alert_def in_savepoint_def)
next
  case True
  with fires have "in_savepoint (evaluate_alert L pf dl now check r alert) d =
      fire_event L dl alert check (now, r) d"
    by (simp add: evaluate_alert_def in_savepoint_def fire_event_def)
  moreover have "undisturbed L alert check (now, r) d"
    using alert calm prov q status_alert_key [OF alert]
    by (auto simp: undisturbed_def quiet_def status_alert_def)
  moreover have "event_key L alert (now, r) = status_key (cr_success r)"
    using status_alert_key [OF alert] by (simp add: event_key_def)
  ultimately show ?thesis using True fire_event_keys [of L alert check "(now, r)" d dl] by auto
qed

section \<open>Whole feeds\<close>

text \<open>A check without a parent that the agent reports for, and an alert on it that is enabled, has
  a live provider and is not snoozed.\<close>

definition watched :: "server \<Rightarrow> uuid \<Rightarrow> Alert \<Rightarrow> Check \<Rightarrow> db \<Rightarrow> bool" where
  "watched S aid alert check d \<longleftrightarrow>
     (\<exists>agent cs. find (\<lambda>a. ag_id a = aid) (agents d) = Some agent \<and>
        get_reportable_checks (sv_hashing S) d agent 0 = Inr cs \<and>
        find (\<lambda>c. ck_id c = ck_id check) cs = Some check) \<and>
     ck_depends_on check = None \<and>
     alert \<in> set (list_active_alerts_for_check d (ck_id check)) \<and>
     distinct (map al_id (list_active_alerts_for_check d (ck_id check))) \<and>
     live_provider_ids d (al_id alert) \<noteq> [] \<and> distinct (map np_id (providers d)) \<and>
     (\<forall>t. \<not> is_snoozed d t alert check)"

definition results_of :: "uuid \<Rightarrow> db \<Rightarrow> CheckResult list" where
  "results_of cid d = filter (\<lambda>r. cr_check_id r = cid) (results d)"

lemma result_free [simp]:
  "list_active_alerts_for_check (d\<lparr>results := rs\<rparr>) = list_active_alerts_for_check d"
  "live_provider_ids (d\<lparr>results := rs\<rparr>) = live_provider_ids d"
  "is_snoozed (d\<lparr>results := rs\<rparr>) = is_snoozed d"
  "subject_rows (d\<lparr>results := rs\<rparr>) = subject_rows d"
  "notified_keys aid cid (d\<lparr>results := rs\<rparr>) = notified_keys aid cid d"
  by (simp_all add: fun_eq_iff list_active_alerts_for_check_def live_provider_ids_def
      list_active_notif_mappings_for_alert_def provider_deleted_def is_snoozed_def
      get_check_mapping_def subject_rows_def notified_keys_def)

lemma watched_frame:
  "watched S aid alert check d \<Longrightarrow> watched S aid alert check (d\<lparr>results := rs, logs := ls\<rparr>)"
  using reportable_fleet [of "d\<lparr>results := rs, logs := ls\<rparr>" d "sv_hashing S" _ 0 0]
  by (auto simp: watched_def)

text \<open>One evaluation, among the other alerts of the check.\<close>

lemma watched_step:
  assumes w: "watched S aid alert check d" and alert: "status_alert alert"
    and fires: "should_fire_alert pf d alert check r = Inr fire"
    and q: "quiet now0 (subject_rows d (al_id alert) (ck_id check))" "now0 \<le> now"
  shows "notified_keys (al_id alert) (ck_id check) (evaluate_check_result L pf dl now check r d) =
      notified_keys (al_id alert) (ck_id check) d @
       (if \<not> fire \<or> notified_keys (al_id alert) (ck_id check) d \<noteq> [] \<and>
           last (notified_keys (al_id alert) (ck_id check) d) = status_key (cr_success r)
        then [] else [status_key (cr_success r)])"
    and "quiet now (subject_rows (evaluate_check_result L pf dl now check r d) (al_id alert) (ck_id check))"
proof -
  have q': "quiet now (subject_rows d (al_id alert) (ck_id check))"
    using q by (fastforce simp: quiet_def)
  have t: "trail (al_id alert) (ck_id check) (evaluate_check_result L pf dl now check r d) =
      trail (al_id alert) (ck_id check) (in_savepoint (evaluate_alert L pf dl now check r alert) d)"
    unfolding evaluate_check_result_all using w alert
    by (intro evaluate_all_alert)
      (auto simp: watched_def status_alert_def SILENCE_TRIGGER_TYPES_def)
  show "quiet now (subject_rows (evaluate_check_result L pf dl now check r d) (al_id alert) (ck_id check))"
    using quiet_step [OF q'] t by (simp add: quiet_trail [symmetric])
  show "notified_keys (al_id alert) (ck_id check) (evaluate_check_result L pf dl now check r d) =
      notified_keys (al_id alert) (ck_id check) d @
       (if \<not> fire \<or> notified_keys (al_id alert) (ck_id check) d \<noteq> [] \<and>
           last (notified_keys (al_id alert) (ck_id check) d) = status_key (cr_success r)
        then [] else [status_key (cr_success r)])"
    using status_step [OF alert fires _ _ _ _ q', of L dl] w t
    by (simp add: watched_def notified_keys_trail [symmetric] notified_keys_trail [of _ _ "evaluate_check_result _ _ _ _ _ _ _"])
qed

lemma report_one:
  assumes w: "watched S aid alert check d"
    and newer: "\<forall>r\<in>set (results_of (ck_id check) d). cr_timestamp r < ts"
  shows "\<exists>row s. process_agent_report S now aid None [plain_result (ck_id check) (ts, ok)] d =
      Inr (evaluate_check_result (sv_lib S) (sv_parse_float S) (sv_delivery S) now check row
             (d\<lparr>results := results d @ [row]\<rparr>), s) \<and>
    cr_check_id row = ck_id check \<and> cr_timestamp row = ts \<and> cr_success row = ok"
proof -
  from w obtain agent cs where a: "find (\<lambda>a. ag_id a = aid) (agents d) = Some agent"
    and c: "get_reportable_checks (sv_hashing S) d agent 0 = Inr cs"
    and f: "find (\<lambda>c. ck_id c = ck_id check) cs = Some check"
    by (auto simp: watched_def)
  have c': "get_reportable_checks (sv_hashing S) d agent now = Inr cs"
    using c reportable_fleet [of d d "sv_hashing S" agent now 0] by simp
  let ?rc = "plain_result (ck_id check) (ts, ok)"
  obtain row where row: "result_row (sv_env S) now now agent cs 0 ?rc = Inr row"
    "cr_check_id row = ck_id check" "cr_timestamp row = ts" "cr_success row = ok"
    using f by (simp add: result_row_def plain_result_def with_certificate_def)
  have "\<not> conflicts (results d) row"
    using newer row by (auto simp: conflicts_iff results_of_def)
  with a c' row f have "process_agent_report S now aid None [?rc] d =
      Inr (evaluate_check_result (sv_lib S) (sv_parse_float S) (sv_delivery S) now check row
             (d\<lparr>results := results d @ [row]\<rparr>),
        \<lparr>results_processed = 1, results_failed = 0, alerts_evaluated = 1\<rparr>)"
    by (simp add: process_agent_report_def Let_def bulk_insert_idempotent_def
        insert_chunks_statement evaluate_inserted_def)
  with row show ?thesis by blast
qed

lemma recent_two:
  assumes "sorted_wrt (<) (map cr_timestamp (results_of cid d @ [row]))" "cr_check_id row = cid"
  shows "get_recent_results_for_check (d\<lparr>results := results d @ [row]\<rparr>) cid 2 =
    row # (if results_of cid d = [] then [] else [last (results_of cid d)])"
proof -
  let ?rs = "results_of cid d"
  have le: "\<forall>r\<in>set ?rs. cr_timestamp r \<le> cr_timestamp row"
    using assms(1) by (auto simp: sorted_wrt_append dest!: less_imp_le)
  have one: "newest_by cr_timestamp (Suc 0) ?rs = (if ?rs = [] then [] else [last ?rs])"
  proof (cases "?rs" rule: rev_cases)
    case (snoc ys y)
    then have "\<forall>r\<in>set ys. cr_timestamp r \<le> cr_timestamp y"
      using assms(1) by (auto simp: sorted_wrt_append dest!: less_imp_le)
    with snoc show ?thesis
      using newest_by_snoc [of ys cr_timestamp y 0] by (simp add: newest_by_def)
  qed (simp add: newest_by_def)
  have "get_recent_results_for_check (d\<lparr>results := results d @ [row]\<rparr>) cid 2 =
      newest_by cr_timestamp (Suc (Suc 0)) (?rs @ [row])"
    using assms(2) by (simp add: get_recent_results_for_check_def results_of_def numeral_2_eq_2)
  also have "\<dots> = row # newest_by cr_timestamp (Suc 0) ?rs" by (rule newest_by_snoc [OF le])
  finally show ?thesis using one by simp
qed






text \<open>A failing result always fires; a successful one fires when the result before the newest
  one stored failed, which is its own predecessor only when it is itself the newest.\<close>

lemma failure_fires:
  "plain_status_alert alert \<Longrightarrow> \<not> cr_success r \<Longrightarrow> should_fire_alert pf d alert check r = Inr True"
  by (simp add: plain_status_alert_def status_alert_def should_fire_alert_def evaluate_status_change_def
      dict_get_or_def status_name_def)

lemma success_fires:
  assumes "plain_status_alert alert" "cr_success r"
    and "get_recent_results_for_check d (ck_id check) 2 = [a, b]" "cr_success b"
  shows "should_fire_alert pf d alert check r = Inr False"
  using assms by (simp add: plain_status_alert_def status_alert_def should_fire_alert_def evaluate_status_change_def)

lemma plain_row:
  assumes "find (\<lambda>c. ck_id c = ck_id check) cs = Some check"
  shows "\<exists>row. result_row E now ts agent cs i (plain_result (ck_id check) (t, ok)) = Inr row \<and>
    cr_check_id row = ck_id check \<and> cr_timestamp row = t \<and> cr_success row = ok"
  using assms by (simp add: result_row_def plain_result_def with_certificate_def)

lemma report_three:
  assumes w: "watched S aid alert check d" and none: "results_of (ck_id check) d = []"
    and t: "t1 < t2" "t2 < t3"
  shows "\<exists>r1 r2 r3 s. process_agent_report S now aid None
      (map (plain_result (ck_id check)) [(t1, b1), (t2, b2), (t3, b3)]) d =
      Inr (foldl (\<lambda>d1 r. evaluate_check_result (sv_lib S) (sv_parse_float S) (sv_delivery S) now check r d1)
             (d\<lparr>results := results d @ [r1, r2, r3]\<rparr>) [r1, r2, r3], s) \<and>
    map cr_success [r1, r2, r3] = [b1, b2, b3] \<and>
    get_recent_results_for_check (d\<lparr>results := results d @ [r1, r2, r3]\<rparr>) (ck_id check) 2 = [r3, r2] \<and>
    (\<forall>r\<in>set (results_of (ck_id check) (d\<lparr>results := results d @ [r1, r2, r3]\<rparr>)). cr_timestamp r \<le> t3)"
proof -
  from w obtain agent cs where a: "find (\<lambda>a. ag_id a = aid) (agents d) = Some agent"
    and c: "get_reportable_checks (sv_hashing S) d agent 0 = Inr cs"
    and f: "find (\<lambda>c. ck_id c = ck_id check) cs = Some check"
    by (auto simp: watched_def)
  have c': "get_reportable_checks (sv_hashing S) d agent now = Inr cs"
    using c reportable_fleet [of d d "sv_hashing S" agent now 0] by simp
  let ?row = "\<lambda>i r. result_row (sv_env S) now now agent cs i (plain_result (ck_id check) r)"
  obtain r1 where r1: "?row 0 (t1, b1) = Inr r1" "cr_check_id r1 = ck_id check" "cr_timestamp r1 = t1"
    "cr_success r1 = b1" using plain_row [OF f] by blast
  obtain r2 where r2: "?row (Suc 0) (t2, b2) = Inr r2" "cr_check_id r2 = ck_id check" "cr_timestamp r2 = t2"
    "cr_success r2 = b2" using plain_row [OF f] by blast
  obtain r3 where r3: "?row (Suc (Suc 0)) (t3, b3) = Inr r3" "cr_check_id r3 = ck_id check"
    "cr_timestamp r3 = t3" "cr_success r3 = b3" using plain_row [OF f] by blast
  have nc: "\<not> conflicts (results d) r" if "cr_check_id r = ck_id check" for r
    using none that by (auto simp: conflicts_iff results_of_def filter_empty_conv)
  have ins: "insert_statement (results d) [r1, r2, r3] = (results d @ [r1, r2, r3], [r1, r2, r3])"
    using nc [OF r1(2)] nc [OF r2(2)] nc [OF r3(2)] r1 r2 r3 t
    by (simp add: conflicts_def)
  have rows: "rows_to_insert (sv_env S) now now agent cs 0
      (map (plain_result (ck_id check)) [(t1, b1), (t2, b2), (t3, b3)]) = ([r1, r2, r3], 0)"
    using r1(1) r2(1) r3(1) by simp
  have "get_recent_results_for_check (d\<lparr>results := results d @ [r1, r2, r3]\<rparr>) (ck_id check) 2 = [r3, r2]"
    using none r1 r2 r3 t
    by (simp add: get_recent_results_for_check_def results_of_def newest_by_def insort_key.simps)
  moreover have "\<forall>r\<in>set (results_of (ck_id check) (d\<lparr>results := results d @ [r1, r2, r3]\<rparr>)). cr_timestamp r \<le> t3"
    using none r1 r2 r3 t by (simp add: results_of_def)
  moreover have "\<exists>s. process_agent_report S now aid None
      (map (plain_result (ck_id check)) [(t1, b1), (t2, b2), (t3, b3)]) d =
      Inr (foldl (\<lambda>d1 r. evaluate_check_result (sv_lib S) (sv_parse_float S) (sv_delivery S) now check r d1)
             (d\<lparr>results := results d @ [r1, r2, r3]\<rparr>) [r1, r2, r3], s)"
    using a c' rows ins f r1(2) r2(2) r3(2)
    by (simp add: process_agent_report_def Let_def bulk_insert_idempotent_def
        insert_chunks_statement evaluate_inserted_def)
  ultimately show ?thesis using r1(4) r2(4) r3(4) by auto
qed

lemma evaluate_check_result_logs:
  obtains ls where "evaluate_check_result L pf dl now check r d = d\<lparr>logs := ls\<rparr>"
  using evaluate_all_logs evaluate_check_result_all by metis

text \<open>Successes evaluated while the newest two results stored are successes tell nothing.\<close>

lemma unheard_success:
  assumes w: "watched S aid alert check d" and alert: "plain_status_alert alert"
    and rec: "get_recent_results_for_check d (ck_id check) 2 = [a, b]" "cr_success b" and "cr_success r"
    and q: "quiet now (subject_rows d (al_id alert) (ck_id check))"
  shows "\<exists>ls. evaluate_check_result L pf dl now check r d = d\<lparr>logs := ls\<rparr> \<and>
    notified_keys (al_id alert) (ck_id check) (d\<lparr>logs := ls\<rparr>) = notified_keys (al_id alert) (ck_id check) d \<and>
    quiet now (subject_rows (d\<lparr>logs := ls\<rparr>) (al_id alert) (ck_id check))"
proof -
  obtain ls where ls: "evaluate_check_result L pf dl now check r d = d\<lparr>logs := ls\<rparr>"
    by (rule evaluate_check_result_logs)
  have "should_fire_alert pf d alert check r = Inr False"
    using success_fires [OF alert assms(5) rec(1,2)] .
  from watched_step [OF w plain_is_status [OF alert] this q order.refl, of L dl] ls show ?thesis by auto
qed

lemma watched_logs: "watched S aid alert check d \<Longrightarrow> watched S aid alert check (d\<lparr>logs := ls\<rparr>)"
  using watched_frame [where d = d and rs = "results d" and ls = ls] by simp

lemma watched_results: "watched S aid alert check d \<Longrightarrow> watched S aid alert check (d\<lparr>results := rs\<rparr>)"
  using watched_frame [where d = d and rs = rs and ls = "logs d"] by simp

text \<open>C7: several results of a check in one report are stored together before any is evaluated,
  so the end of an incident inside the report is not seen: after a failure and two successes in
  one report the log says the check is down, and the next incident, told by itself, is taken for
  the same one and not told at all.\<close>

theorem batched_recovery_lost:
  assumes w: "watched S aid alert check d" and alert: "plain_status_alert alert"
    and none: "results_of (ck_id check) d = []" "subject_rows d (al_id alert) (ck_id check) = []"
    and t: "t1 < t2" "t2 < t3" "t3 < t4" "now \<le> now'"
  shows "\<exists>d1 s1 d2 s2. process_agent_report S now aid None
      (map (plain_result (ck_id check)) [(t1, False), (t2, True), (t3, True)]) d = Inr (d1, s1) \<and>
    notified_keys (al_id alert) (ck_id check) d1 = [''status:down''] \<and>
    process_agent_report S now' aid None [plain_result (ck_id check) (t4, False)] d1 = Inr (d2, s2) \<and>
    notified_keys (al_id alert) (ck_id check) d2 = [''status:down'']"
proof -
  let ?ev = "evaluate_check_result (sv_lib S) (sv_parse_float S) (sv_delivery S)"
  let ?keys = "notified_keys (al_id alert) (ck_id check)"
  let ?sub = "\<lambda>x. subject_rows x (al_id alert) (ck_id check)"
  from report_three [OF w none(1) t(1,2), of now False True True] obtain r1 r2 r3 s1 where
    p: "process_agent_report S now aid None
      (map (plain_result (ck_id check)) [(t1, False), (t2, True), (t3, True)]) d =
      Inr (?ev now check r3 (?ev now check r2 (?ev now check r1 (d\<lparr>results := results d @ [r1, r2, r3]\<rparr>))), s1)"
    and ok: "\<not> cr_success r1" "cr_success r2" "cr_success r3"
    and rec: "get_recent_results_for_check (d\<lparr>results := results d @ [r1, r2, r3]\<rparr>) (ck_id check) 2 = [r3, r2]"
    and old: "\<forall>r\<in>set (results_of (ck_id check) (d\<lparr>results := results d @ [r1, r2, r3]\<rparr>)). cr_timestamp r \<le> t3"
    by auto
  define d0 where "d0 = d\<lparr>results := results d @ [r1, r2, r3]\<rparr>"
  have w0: "watched S aid alert check d0"
    using watched_frame [OF w, where rs = "results d @ [r1, r2, r3]" and ls = "logs d"] by (simp add: d0_def)
  have q0: "quiet now (?sub d0)" "?keys d0 = []"
    using none(2) by (simp_all add: d0_def quiet_def notified_keys_def)
  obtain l1 where l1: "?ev now check r1 d0 = d0\<lparr>logs := l1\<rparr>" by (rule evaluate_check_result_logs)
  have k1: "?keys (d0\<lparr>logs := l1\<rparr>) = [status_key False]" "quiet now (?sub (d0\<lparr>logs := l1\<rparr>))"
    using watched_step [OF w0 plain_is_status [OF alert] failure_fires [OF alert ok(1)] q0(1) order.refl,
        where L = "sv_lib S" and dl = "sv_delivery S" and pf = "sv_parse_float S"]
      q0(2) ok(1) l1 by simp_all
  from unheard_success [OF watched_logs [OF w0] alert _ ok(2,2) k1(2)] rec obtain l2 where
    l2: "?ev now check r2 (d0\<lparr>logs := l1\<rparr>) = d0\<lparr>logs := l2\<rparr>" "?keys (d0\<lparr>logs := l2\<rparr>) = [status_key False]"
      "quiet now (?sub (d0\<lparr>logs := l2\<rparr>))" using k1(1) by (fastforce simp: d0_def)
  from unheard_success [OF watched_logs [OF w0] alert _ ok(2,3) l2(3)] rec obtain l3 where
    l3: "?ev now check r3 (d0\<lparr>logs := l2\<rparr>) = d0\<lparr>logs := l3\<rparr>" "?keys (d0\<lparr>logs := l3\<rparr>) = [status_key False]"
      "quiet now (?sub (d0\<lparr>logs := l3\<rparr>))" using l2(2) by (fastforce simp: d0_def)
  let ?d1 = "d0\<lparr>logs := l3\<rparr>"
  have newer: "\<forall>r\<in>set (results_of (ck_id check) ?d1). cr_timestamp r < t4"
    using old t(3) by (force simp: d0_def results_of_def)
  from report_one [OF watched_logs [OF w0] newer, of now' False] obtain row s2 where
    p2: "process_agent_report S now' aid None [plain_result (ck_id check) (t4, False)] ?d1 =
      Inr (?ev now' check row (?d1\<lparr>results := results ?d1 @ [row]\<rparr>), s2)" and row: "\<not> cr_success row" by auto
  have w1: "watched S aid alert check (?d1\<lparr>results := results ?d1 @ [row]\<rparr>)"
    by (intro watched_results watched_logs w0)
  have "?keys (?ev now' check row (?d1\<lparr>results := results ?d1 @ [row]\<rparr>)) = [status_key False]"
    using watched_step(1) [OF w1 plain_is_status [OF alert] failure_fires [OF alert row] _ t(4)] l3(2,3) row by simp
  with p p2 l1 l2(1) l3(1,2) show ?thesis by (auto simp: d0_def status_key_def)
qed

text \<open>C8: an alert that waits for several failures in a row still tells of a recovery after a single
  one: a blip it rightly kept silent about is followed by the news that the check is up again.\<close>

theorem recovery_without_incident:
  assumes w: "watched S aid alert check d" and alert: "status_alert alert"
    and cfg: "dict_get (al_trigger_config alert) ''consecutive_failures'' = Some (JInt n)" "1 < n"
      "dict_get (al_trigger_config alert) ''on_status'' = None"
    and none: "results_of (ck_id check) d = []" "subject_rows d (al_id alert) (ck_id check) = []"
    and t: "t1 < t2" "now \<le> now'"
  shows "\<exists>d1 s1 d2 s2. process_agent_report S now aid None [plain_result (ck_id check) (t1, False)] d = Inr (d1, s1) \<and>
    notified_keys (al_id alert) (ck_id check) d1 = [] \<and>
    process_agent_report S now' aid None [plain_result (ck_id check) (t2, True)] d1 = Inr (d2, s2) \<and>
    notified_keys (al_id alert) (ck_id check) d2 = [''status:up'']"
proof -
  let ?ev = "evaluate_check_result (sv_lib S) (sv_parse_float S) (sv_delivery S)"
  let ?keys = "notified_keys (al_id alert) (ck_id check)"
  let ?sub = "\<lambda>x. subject_rows x (al_id alert) (ck_id check)"
  have "\<forall>r\<in>set (results_of (ck_id check) d). cr_timestamp r < t1" using none(1) by simp
  from report_one [OF w this, of now False] obtain r1 s1 where
    p1: "process_agent_report S now aid None [plain_result (ck_id check) (t1, False)] d =
      Inr (?ev now check r1 (d\<lparr>results := results d @ [r1]\<rparr>), s1)"
    and r1: "cr_check_id r1 = ck_id check" "cr_timestamp r1 = t1" "\<not> cr_success r1" by auto
  let ?d = "d\<lparr>results := results d @ [r1]\<rparr>"
  have res: "results_of (ck_id check) ?d = [r1]" using none(1) r1(1) by (simp add: results_of_def)
  have "length (get_recent_results_for_check ?d (ck_id check) (limit_of (of_int n))) \<le> 1"
    using res by (simp add: get_recent_results_for_check_def results_of_def length_newest_by)
  then have "should_fire_alert (sv_parse_float S) ?d alert check r1 = Inr False"
    using alert cfg r1(3) by (simp add: status_alert_def should_fire_alert_def
        evaluate_status_change_def dict_get_or_def status_name_def Let_def)
  note step1 = watched_step [OF watched_results [OF w] alert this, of now now "sv_lib S" "sv_delivery S"]
  obtain l1 where l1: "?ev now check r1 ?d = ?d\<lparr>logs := l1\<rparr>" by (rule evaluate_check_result_logs)
  define d1 where "d1 = ?d\<lparr>logs := l1\<rparr>"
  have k1: "?keys d1 = []" "quiet now (?sub d1)"
    using step1 none(2) l1 by (simp_all add: quiet_def notified_keys_def d1_def)
  have w1: "watched S aid alert check d1" unfolding d1_def by (intro watched_logs watched_results w)
  have res1: "results_of (ck_id check) d1 = [r1]" using res by (simp add: results_of_def d1_def)
  then have "\<forall>r\<in>set (results_of (ck_id check) d1). cr_timestamp r < t2" using r1(2) t(1) by simp
  from report_one [OF w1 this, of now' True] obtain r2 s2 where
    p2: "process_agent_report S now' aid None [plain_result (ck_id check) (t2, True)] d1 =
      Inr (?ev now' check r2 (d1\<lparr>results := results d1 @ [r2]\<rparr>), s2)"
    and r2: "cr_check_id r2 = ck_id check" "cr_timestamp r2 = t2" "cr_success r2" by auto
  have "get_recent_results_for_check (d1\<lparr>results := results d1 @ [r2]\<rparr>) (ck_id check) 2 = [r2, r1]"
    using recent_two [of "ck_id check" d1 r2] res1 r1 r2 t(1) by simp
  then have "should_fire_alert (sv_parse_float S) (d1\<lparr>results := results d1 @ [r2]\<rparr>) alert check r2 = Inr True"
    using alert r1(3) r2(3) by (simp add: status_alert_def should_fire_alert_def evaluate_status_change_def)
  note step2 = watched_step(1) [OF watched_results [OF w1] alert this _ t(2), of "sv_lib S" "sv_delivery S"]
  have "?keys (?ev now' check r2 (d1\<lparr>results := results d1 @ [r2]\<rparr>)) = [''status:up'']"
    using step2 k1 r2(3) by (simp add: status_key_def)
  with p1 p2 l1 k1(1) show ?thesis by (auto simp: d1_def)
qed

section \<open>Witnesses\<close>

definition demo_server :: server where
  "demo_server = \<lparr>sv_lib = demo_lib, sv_parse_float = (\<lambda>_. None), sv_delivery = (\<lambda>_. Inl True),
     sv_hashing = demo_hashing,
     sv_env = \<lparr>parse_uuid = (\<lambda>_. None), uuid7 = (\<lambda>i. 100 + i), parse_expiry = (\<lambda>_. None),
       ssl_cert_warning_days = 30, ssl_cert_critical_days = 14\<rparr>\<rparr>"

lemma demo_reportable: "get_reportable_checks demo_hashing (demo_db t) (demo_agent 2) now = Inr [demo_check]"
  by (simp add: get_reportable_checks_def checks_for_agent_def list_assignment_candidates_def
      alert_demo_defs runs_on_def demo_agent_def)

lemma demo_agent_found: "find (\<lambda>a. ag_id a = 2) (agents (demo_db t)) = Some (demo_agent 2)"
  by (simp add: alert_demo_defs demo_agent_def)

lemma demo_unsnoozed: "\<not> is_snoozed (demo_db t) now (demo_alert t) demo_check"
  by (simp add: is_snoozed_def get_check_mapping_def alert_demo_defs)

lemma demo_watched: "watched demo_server 2 (demo_alert t) demo_check (demo_db t)"
  unfolding watched_def
  by (intro conjI exI [of _ "demo_agent 2"] exI [of _ "[demo_check]"] allI)
    (simp_all add: demo_agent_found demo_reportable demo_active demo_live demo_unsnoozed demo_server_def,
      simp add: alert_demo_defs)

lemma demo_empty: "results_of (ck_id demo_check) (demo_db t) = []"
  "subject_rows (demo_db t) (al_id (demo_alert t)) (ck_id demo_check) = []"
  by (simp_all add: results_of_def subject_rows_def alert_demo_defs)

lemma demo_plain: "plain_status_alert (demo_alert STATUS_CHANGE)"
  by (simp add: plain_status_alert_def status_alert_def alert_demo_defs)


theorem batched_recovery_lost_witness:
  "\<exists>d1 s1 d2 s2. process_agent_report demo_server 10 2 None
      (map (plain_result (ck_id demo_check)) [(1, False), (2, True), (3, True)]) (demo_db STATUS_CHANGE) = Inr (d1, s1) \<and>
    notified_keys (al_id (demo_alert STATUS_CHANGE)) (ck_id demo_check) d1 = [''status:down''] \<and>
    process_agent_report demo_server 20 2 None [plain_result (ck_id demo_check) (4, False)] d1 = Inr (d2, s2) \<and>
    notified_keys (al_id (demo_alert STATUS_CHANGE)) (ck_id demo_check) d2 = [''status:down'']"
  by (rule batched_recovery_lost [OF demo_watched demo_plain demo_empty]) simp_all

text \<open>The same alert waiting for three failures in a row.\<close>

definition patient_alert :: Alert where
  "patient_alert = (demo_alert STATUS_CHANGE)\<lparr>al_trigger_config := [(''consecutive_failures'', JInt 3)]\<rparr>"

definition patient_db :: db where
  "patient_db = (demo_db STATUS_CHANGE)\<lparr>alerts := [patient_alert]\<rparr>"

lemma patient_watched: "watched demo_server 2 patient_alert demo_check patient_db"
  unfolding watched_def
  by (intro conjI exI [of _ "demo_agent 2"] exI [of _ "[demo_check]"] allI)
    (simp_all add: patient_db_def patient_alert_def demo_server_def alert_demo_defs demo_agent_def
      get_reportable_checks_def checks_for_agent_def list_assignment_candidates_def runs_on_def
      list_active_alerts_for_check_def live_provider_ids_def list_active_notif_mappings_for_alert_def
      provider_deleted_def is_snoozed_def get_check_mapping_def)

theorem recovery_without_incident_witness:
  "\<exists>d1 s1 d2 s2. process_agent_report demo_server 10 2 None [plain_result (ck_id demo_check) (1, False)] patient_db =
      Inr (d1, s1) \<and> notified_keys (al_id patient_alert) (ck_id demo_check) d1 = [] \<and>
    process_agent_report demo_server 20 2 None [plain_result (ck_id demo_check) (2, True)] d1 = Inr (d2, s2) \<and>
    notified_keys (al_id patient_alert) (ck_id demo_check) d2 = [''status:up'']"
  by (rule recovery_without_incident [OF patient_watched, where n = 3])
    (simp_all add: patient_alert_def patient_db_def status_alert_def alert_demo_defs results_of_def
      subject_rows_def)

lemma demo_report:
  "\<exists>d' s. process_agent_report demo_server 10 2 None [plain_result 9 (1, False)] (demo_db STATUS_CHANGE) = Inr (d', s)"
  by (simp add: process_agent_report_def demo_agent_found demo_reportable demo_server_def Let_def
      case_prod_unfold)

theorem report_retry_noop_witness:
  "\<exists>d' s. process_agent_report demo_server 20 2 None [plain_result 9 (1, False)] d' =
     Inr (d', s\<lparr>alerts_evaluated := 0\<rparr>)"
proof -
  from demo_report obtain d' s where
    "process_agent_report demo_server 10 2 None [plain_result 9 (1, False)] (demo_db STATUS_CHANGE) = Inr (d', s)"
    by blast
  from report_retry_noop [OF this, of 20 None] show ?thesis by (auto simp: plain_result_def)
qed

theorem report_stores_properly_witness:
  "\<exists>d' s. process_agent_submission demo_server (\<lambda>_. Some (plain_result 9 (1, False))) 10 2 None [JNull]
       (demo_db STATUS_CHANGE) = Inr (d', s) \<and> results_processed s + results_failed s = 1"
proof -
  from demo_report obtain d' s where
    "process_agent_submission demo_server (\<lambda>_. Some (plain_result 9 (1, False))) 10 2 None [JNull]
       (demo_db STATUS_CHANGE) = Inr (d', s)"
    by (auto simp: process_agent_submission_def)
  moreover have "distinct (map result_key (results (demo_db STATUS_CHANGE)))" by (simp add: alert_demo_defs)
  ultimately show ?thesis using report_stores_properly by fastforce
qed

end
