(* ===== verification/Wiring.thy ===== *)
theory Wiring
  imports Notifications
begin

text \<open>
  The configuration behind the alert engine: which checks an alert watches and through which
  providers it speaks (\<^verbatim>\<open>services/core/alert_core_service.py\<close>, \<^verbatim>\<open>crud/alert_crud.py\<close>), which check
  depends on which (\<^verbatim>\<open>services/core/check_dependency_core_service.py\<close>), and how checks come and go
  (\<^verbatim>\<open>services/core/check_core_service.py\<close>). Sets of ids are lists without repetition; the order in
  which Python runs through a set does not matter to any of these operations.

  A check another transaction is changing is refused by a lock; which ones are is the parameter
  \<open>busy\<close>. The address and script checks of a new check are parameters too.
\<close>

definition SYNTHETIC :: string where "SYNTHETIC = ''synthetic''"

definition require_admin_actor :: "bool \<Rightarrow> py_error + unit" where
  "require_admin_actor actor_is_admin =
     (if actor_is_admin then Inr () else Inl (AuthorizationException ''Synthetic checks require admin privileges''))"

definition get_check :: "'a fleet_scheme \<Rightarrow> uuid \<Rightarrow> Check option" where
  "get_check f cid = find (\<lambda>c. ck_id c = cid) (checks f)"

definition is_synthetic :: "'a fleet_scheme \<Rightarrow> uuid \<Rightarrow> bool" where
  "is_synthetic f cid = (case get_check f cid of None \<Rightarrow> False | Some c \<Rightarrow> ck_check_type c = SYNTHETIC)"

section \<open>Alerts and their checks\<close>

definition get_alert_by_id :: "db \<Rightarrow> uuid \<Rightarrow> py_error + Alert" where
  "get_alert_by_id d aid =
     (case find (\<lambda>a. al_id a = aid \<and> al_deleted_at a = None) (alerts d) of
        None \<Rightarrow> Inl (NotFoundException ''Alert not found'') | Some a \<Rightarrow> Inr a)"

definition require_check_list :: "Alert \<Rightarrow> py_error + unit" where
  "require_check_list a =
     (if al_is_global a
      then Inl (ValidationException ''A global alert reaches checks by its filters; it takes no check list'')
      else Inr ())"

definition require_checks :: "(uuid \<Rightarrow> bool) \<Rightarrow> db \<Rightarrow> uuid list \<Rightarrow> bool \<Rightarrow> py_error + unit" where
  "require_checks busy d cids actor_is_admin =
     (if list_ex busy cids then Inl (ConflictException ''Check busy'')
      else if list_ex (\<lambda>c. get_check d c = None) cids then Inl (ValidationException ''No check has the id'')
      else if list_ex (is_synthetic d) cids then require_admin_actor actor_is_admin
      else Inr ())"

definition list_check_ids :: "db \<Rightarrow> uuid \<Rightarrow> uuid list" where
  "list_check_ids d aid =
     sort (map am_check_id (filter (\<lambda>m. am_alert_id m = aid) (check_mappings d)))"

definition new_mapping :: "uuid \<Rightarrow> uuid \<Rightarrow> AlertCheckMapping" where
  "new_mapping aid cid = \<lparr>am_alert_id = aid, am_check_id = cid, am_is_enabled = True,
     am_snoozed_until = None, am_override_resend_interval = None, am_override_max_resends = None\<rparr>"

definition mapped :: "db \<Rightarrow> uuid \<Rightarrow> uuid \<Rightarrow> bool" where
  "mapped d aid cid = list_ex (\<lambda>m. am_alert_id m = aid \<and> am_check_id m = cid) (check_mappings d)"

definition replace_check_mappings :: "db \<Rightarrow> uuid \<Rightarrow> uuid list \<Rightarrow> uuid list \<Rightarrow> db \<times> nat \<times> nat" where
  "replace_check_mappings d aid current wanted =
     (let removed = filter (\<lambda>c. c \<notin> set wanted) current;
          kept = filter (\<lambda>m. \<not> (am_alert_id m = aid \<and> am_check_id m \<in> set removed)) (check_mappings d);
          d1 = d\<lparr>check_mappings := kept\<rparr>;
          added = filter (\<lambda>c. c \<notin> set current \<and> \<not> mapped d1 aid c) (remdups wanted)
      in (d1\<lparr>check_mappings := kept @ map (new_mapping aid) added\<rparr>, length added,
          length (check_mappings d) - length kept))"

definition set_checks :: "(uuid \<Rightarrow> bool) \<Rightarrow> db \<Rightarrow> uuid \<Rightarrow> uuid list \<Rightarrow> bool \<Rightarrow> py_error + (db \<times> nat \<times> nat)" where
  "set_checks busy d aid check_ids actor_is_admin =
     res_bind (get_alert_by_id d aid) (\<lambda>alert.
       res_bind (require_check_list alert) (\<lambda>_.
         let current = list_check_ids d aid;
             wanted = remdups check_ids;
             changed = filter (\<lambda>c. c \<notin> set wanted) current @ filter (\<lambda>c. c \<notin> set current) wanted
         in res_bind (require_checks busy d changed actor_is_admin) (\<lambda>_.
              Inr (replace_check_mappings d aid current wanted))))"

definition list_mapped_provider_ids :: "db \<Rightarrow> uuid \<Rightarrow> uuid list" where
  "list_mapped_provider_ids d aid =
     map an_provider_id (filter (\<lambda>m. an_alert_id m = aid) (notif_mappings d))"

text \<open>A foreign key refuses a provider that is not there.\<close>

definition replace_provider_mappings :: "db \<Rightarrow> uuid \<Rightarrow> uuid list \<Rightarrow> py_error + (db \<times> nat \<times> nat)" where
  "replace_provider_mappings d aid pids =
     (let current = remdups (list_mapped_provider_ids d aid);
          removed = filter (\<lambda>p. p \<notin> set pids) current;
          added = filter (\<lambda>p. p \<notin> set current) (remdups pids);
          kept = filter (\<lambda>m. \<not> (an_alert_id m = aid \<and> an_provider_id m \<in> set removed)) (notif_mappings d)
      in if list_all (\<lambda>p. p \<in> np_id ` set (providers d)) added
         then Inr (d\<lparr>notif_mappings := kept @
                map (\<lambda>p. \<lparr>an_alert_id = aid, an_provider_id = p, an_is_enabled = True\<rparr>) added\<rparr>,
              length added, length removed)
         else Inl IntegrityError)"

definition set_providers :: "db \<Rightarrow> uuid \<Rightarrow> uuid list \<Rightarrow> py_error + (db \<times> nat \<times> nat)" where
  "set_providers d aid pids =
     res_bind (get_alert_by_id d aid) (\<lambda>_. replace_provider_mappings d aid pids)"

text \<open>Foreign keys again: the alert and the check of a new mapping exist.\<close>

definition add_check :: "db \<Rightarrow> uuid \<Rightarrow> uuid \<Rightarrow> py_error + db" where
  "add_check d aid cid =
     (case get_check_mapping d aid cid of
        Some _ \<Rightarrow> Inl (ValidationException ''Check already added to this alert'')
      | None \<Rightarrow>
          (if aid \<in> al_id ` set (alerts d) \<and> get_check d cid \<noteq> None
           then Inr (d\<lparr>check_mappings := check_mappings d @ [new_mapping aid cid]\<rparr>)
           else Inl IntegrityError))"

definition remove_check :: "db \<Rightarrow> uuid \<Rightarrow> uuid \<Rightarrow> db" where
  "remove_check d aid cid =
     d\<lparr>check_mappings := filter (\<lambda>m. \<not> (am_alert_id m = aid \<and> am_check_id m = cid)) (check_mappings d)\<rparr>"

definition update_mapping :: "uuid \<Rightarrow> uuid \<Rightarrow> (AlertCheckMapping \<Rightarrow> AlertCheckMapping) \<Rightarrow> db \<Rightarrow> db" where
  "update_mapping aid cid g d =
     d\<lparr>check_mappings := map (\<lambda>m. if am_alert_id m = aid \<and> am_check_id m = cid then g m else m)
        (check_mappings d)\<rparr>"

definition list_check_mappings :: "db \<Rightarrow> uuid \<Rightarrow> AlertCheckMapping list" where
  "list_check_mappings d cid = filter (\<lambda>m. am_check_id m = cid) (check_mappings d)"

definition copy_mapping :: "uuid list \<Rightarrow> uuid \<Rightarrow> db \<Rightarrow> AlertCheckMapping \<Rightarrow> db" where
  "copy_mapping held target d source =
     (let aid = am_alert_id source;
          d1 = (if aid \<in> set held then d
                else d\<lparr>check_mappings := check_mappings d @ [new_mapping aid target]\<rparr>)
      in update_mapping aid target
           (\<lambda>m. m\<lparr>am_is_enabled := am_is_enabled source,
                  am_override_resend_interval := am_override_resend_interval source,
                  am_override_max_resends := am_override_max_resends source\<rparr>) d1)"

definition copy_check_mappings :: "db \<Rightarrow> uuid \<Rightarrow> uuid \<Rightarrow> db" where
  "copy_check_mappings d source_id target_id =
     (let held = map am_alert_id (list_check_mappings d target_id)
      in foldl (copy_mapping held target_id) d (list_check_mappings d source_id))"

definition list_alert_ids_for_check :: "db \<Rightarrow> uuid \<Rightarrow> uuid list" where
  "list_alert_ids_for_check d cid =
     map am_alert_id (filter (\<lambda>m. am_check_id m = cid) (check_mappings d))"

definition list_global_enabled_alert_ids :: "db \<Rightarrow> uuid list" where
  "list_global_enabled_alert_ids d =
     map al_id (filter (\<lambda>a. al_is_global a \<and> al_is_enabled a \<and> al_deleted_at a = None) (alerts d))"

definition assign_global_alerts_to_check :: "db \<Rightarrow> uuid \<Rightarrow> db" where
  "assign_global_alerts_to_check d cid =
     d\<lparr>check_mappings := check_mappings d @
        map (\<lambda>aid. new_mapping aid cid)
          (filter (\<lambda>aid. aid \<notin> set (list_alert_ids_for_check d cid)) (list_global_enabled_alert_ids d))\<rparr>"

fun add_checks :: "db \<Rightarrow> uuid list \<Rightarrow> uuid \<Rightarrow> py_error + db" where
  "add_checks d [] cid = Inr d"
| "add_checks d (aid # aids) cid = res_bind (add_check d aid cid) (\<lambda>d1. add_checks d1 aids cid)"

definition sync_check_alerts :: "db \<Rightarrow> uuid \<Rightarrow> uuid list \<Rightarrow> py_error + db" where
  "sync_check_alerts d cid alert_ids =
     (let current = remdups (list_alert_ids_for_check d cid);
          new = remdups alert_ids;
          d1 = foldl (\<lambda>x aid. remove_check x aid cid) d (filter (\<lambda>a. a \<notin> set new) current)
      in add_checks d1 (filter (\<lambda>a. a \<notin> set current) new) cid)"

fun bulk_assign :: "db \<Rightarrow> db \<Rightarrow> uuid \<Rightarrow> uuid list \<Rightarrow> py_error + db" where
  "bulk_assign read d aid [] = Inr d"
| "bulk_assign read d aid (cid # cids) =
     (let existing = list_alert_ids_for_check read cid
      in if aid \<in> set existing then bulk_assign read d aid cids
         else res_bind (sync_check_alerts d cid (existing @ [aid])) (\<lambda>d1. bulk_assign read d1 aid cids))"

definition bulk_assign_to_checks :: "db \<Rightarrow> uuid \<Rightarrow> uuid list \<Rightarrow> py_error + (db \<times> nat)" where
  "bulk_assign_to_checks d aid cids =
     res_bind (get_alert_by_id d aid) (\<lambda>_.
       res_bind (bulk_assign d d aid cids) (\<lambda>d1. Inr (d1, length cids)))"

fun bulk_clear_from_checks :: "db \<Rightarrow> uuid list \<Rightarrow> py_error + db" where
  "bulk_clear_from_checks d [] = Inr d"
| "bulk_clear_from_checks d (cid # cids) =
     res_bind (sync_check_alerts d cid []) (\<lambda>d1. bulk_clear_from_checks d1 cids)"

section \<open>Snoozing\<close>

definition MAX_SNOOZE :: int where "MAX_SNOOZE = 24 * 60 * MINUTE"

definition snooze_end :: "instant \<Rightarrow> int \<Rightarrow> instant option \<Rightarrow> instant" where
  "snooze_end now minutes current =
     (let start = (case current of None \<Rightarrow> now | Some t \<Rightarrow> if now < t then t else now)
      in min (start + minutes * MINUTE) (now + MAX_SNOOZE))"

definition snooze_alert_check :: "db \<Rightarrow> instant \<Rightarrow> uuid \<Rightarrow> uuid \<Rightarrow> int \<Rightarrow> py_error + (db \<times> instant)" where
  "snooze_alert_check d now aid cid minutes =
     (case get_check_mapping d aid cid of
        None \<Rightarrow> Inl (NotFoundException ''Alert-check mapping not found'')
      | Some m \<Rightarrow>
          Inr (update_mapping aid cid
                 (\<lambda>x. x\<lparr>am_snoozed_until := Some (snooze_end now minutes (am_snoozed_until x))\<rparr>) d,
               snooze_end now minutes (am_snoozed_until m)))"

definition unsnooze_alert_check :: "db \<Rightarrow> uuid \<Rightarrow> uuid \<Rightarrow> py_error + db" where
  "unsnooze_alert_check d aid cid =
     (case get_check_mapping d aid cid of
        None \<Rightarrow> Inl (NotFoundException ''Alert-check mapping not found'')
      | Some _ \<Rightarrow> Inr (update_mapping aid cid (\<lambda>x. x\<lparr>am_snoozed_until := None\<rparr>) d))"

section \<open>Dependencies\<close>

definition list_dependents :: "'a fleet_scheme \<Rightarrow> uuid \<Rightarrow> Check list" where
  "list_dependents f pid = filter (\<lambda>c. ck_depends_on c = Some pid) (checks f)"

definition count_dependents :: "'a fleet_scheme \<Rightarrow> uuid \<Rightarrow> nat" where
  "count_dependents f pid = length (list_dependents f pid)"

definition parents_among :: "'a fleet_scheme \<Rightarrow> uuid list \<Rightarrow> uuid list" where
  "parents_among f cids = filter (\<lambda>cid. list_dependents f cid \<noteq> []) cids"

definition validate_dependency :: "'a fleet_scheme \<Rightarrow> uuid option \<Rightarrow> uuid option \<Rightarrow> py_error + unit" where
  "validate_dependency f parent own =
     (case parent of
        None \<Rightarrow> Inr ()
      | Some pid \<Rightarrow>
          (if own = Some pid then Inl (ValidationException ''A check cannot depend on itself'')
           else case get_check f pid of
             None \<Rightarrow> Inl (ValidationException ''Parent check not found'')
           | Some p \<Rightarrow>
               (if ck_depends_on p \<noteq> None
                then Inl (ValidationException ''Single-level dependencies only: the selected parent already has a parent'')
                else case own of
                  None \<Rightarrow> Inr ()
                | Some cid \<Rightarrow>
                    (if 0 < count_dependents f cid
                     then Inl (ValidationException ''Single-level dependencies only: this check is a parent itself'')
                     else Inr ()))))"

definition set_parent :: "uuid \<Rightarrow> uuid list \<Rightarrow> uuid list \<Rightarrow> 'a fleet_scheme \<Rightarrow> 'a fleet_scheme" where
  "set_parent pid attach detach f =
     f\<lparr>checks := map (\<lambda>c. if ck_id c \<in> set detach then c\<lparr>ck_depends_on := None\<rparr>
                         else if ck_id c \<in> set attach then c\<lparr>ck_depends_on := Some pid\<rparr> else c) (checks f)\<rparr>"

definition set_dependents :: "'a fleet_scheme \<Rightarrow> uuid \<Rightarrow> uuid list \<Rightarrow> bool
    \<Rightarrow> py_error + ('a fleet_scheme \<times> nat \<times> nat)" where
  "set_dependents f pid child_ids actor_is_admin =
     (case get_check f pid of
        None \<Rightarrow> Inl (ValidationException ''Parent check not found'')
      | Some parent \<Rightarrow>
          (let desired = remdups child_ids;
               current = map ck_id (list_dependents f pid);
               to_add = filter (\<lambda>c. c \<notin> set current) desired;
               to_remove = filter (\<lambda>c. c \<notin> set desired) current
           in if ck_depends_on parent \<noteq> None
              then Inl (ValidationException ''Selected parent already has its own parent (single-level only)'')
              else if pid \<in> set desired then Inl (ValidationException ''A check cannot depend on itself'')
              else if list_ex (\<lambda>c. get_check f c = None) desired
              then Inl (ValidationException ''Check not found'')
              else if parents_among f desired \<noteq> []
              then Inl (ValidationException ''Check is itself a parent: single-level only'')
              else res_bind (if list_ex (is_synthetic f) (to_add @ to_remove)
                             then require_admin_actor actor_is_admin else Inr ()) (\<lambda>_.
                Inr (set_parent pid to_add to_remove f, length to_add, length to_remove))))"

section \<open>Alerts come and go\<close>

text \<open>A new alert's fields; its providers and checks come beside them.\<close>

record AlertCreate =
  ac_trigger_type :: AlertTriggerType
  ac_trigger_config :: dict
  ac_is_enabled :: bool
  ac_is_global :: bool
  ac_notify_on_recovery :: bool
  ac_resend_interval_minutes :: "int option"
  ac_max_resends :: "int option"
  ac_provider_ids :: "uuid list"
  ac_check_ids :: "uuid list"

text \<open>An update names the fields sent. A required column sent empty is left as it is, so for these
  \<open>None\<close> is either; a nullable one may be sent as null. \<open>au_trigger_nulled\<close>: the trigger type or its
  configuration is sent as null, which writes nothing but has the configuration judged again.\<close>

record AlertUpdate =
  au_trigger_type :: "AlertTriggerType option"
  au_trigger_config :: "dict option"
  au_is_enabled :: "bool option"
  au_is_global :: "bool option"
  au_notify_on_recovery :: "bool option"
  au_resend_interval_minutes :: "int option option"
  au_max_resends :: "int option option"
  au_trigger_nulled :: bool

definition set_field :: "'a option \<Rightarrow> 'a \<Rightarrow> 'a" where
  "set_field sent old = (case sent of None \<Rightarrow> old | Some x \<Rightarrow> x)"

text \<open>\<open>fit\<close> is \<open>normalized_trigger_config\<close>: the configuration in the form evaluation reads, or
  a refusal.\<close>

definition valid_trigger_config ::
    "(AlertTriggerType \<Rightarrow> dict \<Rightarrow> dict option) \<Rightarrow> AlertTriggerType \<Rightarrow> dict \<Rightarrow> py_error + dict" where
  "valid_trigger_config fit ty config =
     (case fit ty config of
        None \<Rightarrow> Inl (ValidationException ''trigger_config does not fit the trigger type'') | Some c \<Rightarrow> Inr c)"

text \<open>The unique constraints of both mapping tables refuse a repeated id; a foreign key refuses a
  check or provider that is not there.\<close>

definition add_alert :: "db \<Rightarrow> Alert \<Rightarrow> uuid list \<Rightarrow> uuid list \<Rightarrow> py_error + db" where
  "add_alert d alert provider_ids check_ids =
     (if distinct provider_ids \<and> distinct check_ids \<and>
         list_all (\<lambda>p. p \<in> np_id ` set (providers d)) provider_ids \<and>
         list_all (\<lambda>c. get_check d c \<noteq> None) check_ids
      then Inr (d\<lparr>alerts := alerts d @ [alert],
        notif_mappings := notif_mappings d @
          map (\<lambda>p. \<lparr>an_alert_id = al_id alert, an_provider_id = p, an_is_enabled = True\<rparr>) provider_ids,
        check_mappings := check_mappings d @ map (new_mapping (al_id alert)) check_ids\<rparr>)
      else Inl IntegrityError)"

definition create_alert :: "(AlertTriggerType \<Rightarrow> dict \<Rightarrow> dict option) \<Rightarrow> db \<Rightarrow> uuid \<Rightarrow> AlertCreate \<Rightarrow> py_error + db" where
  "create_alert fit d new_id data =
     res_bind (valid_trigger_config fit (ac_trigger_type data) (ac_trigger_config data)) (\<lambda>config.
       add_alert d \<lparr>al_id = new_id, al_trigger_type = ac_trigger_type data, al_trigger_config = config,
           al_is_enabled = ac_is_enabled data, al_is_global = ac_is_global data,
           al_notify_on_recovery = ac_notify_on_recovery data,
           al_resend_interval_minutes = ac_resend_interval_minutes data, al_max_resends = ac_max_resends data,
           al_deleted_at = None\<rparr>
         (ac_provider_ids data) (if ac_is_global data then [] else ac_check_ids data))"

definition require_providers :: "db \<Rightarrow> uuid list \<Rightarrow> py_error + unit" where
  "require_providers d ids =
     (if list_ex (\<lambda>p. p \<notin> np_id ` set (filter (\<lambda>x. np_deleted_at x = None) (providers d))) ids
      then Inl (ValidationException ''No notification provider has the id'') else Inr ())"

text \<open>What the admin API does: the ids are judged, and each taken once.\<close>

definition admin_create_alert ::
    "(uuid \<Rightarrow> bool) \<Rightarrow> (AlertTriggerType \<Rightarrow> dict \<Rightarrow> dict option) \<Rightarrow> db \<Rightarrow> uuid \<Rightarrow> AlertCreate \<Rightarrow> bool \<Rightarrow> py_error + db" where
  "admin_create_alert busy fit d new_id data actor_is_admin =
     res_bind (require_providers d (ac_provider_ids data)) (\<lambda>_.
       res_bind (require_checks busy d (ac_check_ids data) actor_is_admin) (\<lambda>_.
         create_alert fit d new_id (data\<lparr>ac_provider_ids := remdups (ac_provider_ids data),
           ac_check_ids := remdups (ac_check_ids data)\<rparr>)))"

definition put_alert :: "Alert \<Rightarrow> db \<Rightarrow> db" where
  "put_alert a d = d\<lparr>alerts := map (\<lambda>x. if al_id x = al_id a then a else x) (alerts d)\<rparr>"

definition update_alert :: "(AlertTriggerType \<Rightarrow> dict \<Rightarrow> dict option) \<Rightarrow> db \<Rightarrow> uuid \<Rightarrow> AlertUpdate \<Rightarrow> py_error + db" where
  "update_alert fit d aid u =
     res_bind (get_alert_by_id d aid) (\<lambda>alert.
       let a = alert\<lparr>al_trigger_type := set_field (au_trigger_type u) (al_trigger_type alert),
             al_trigger_config := set_field (au_trigger_config u) (al_trigger_config alert),
             al_is_enabled := set_field (au_is_enabled u) (al_is_enabled alert),
             al_is_global := set_field (au_is_global u) (al_is_global alert),
             al_notify_on_recovery := set_field (au_notify_on_recovery u) (al_notify_on_recovery alert),
             al_resend_interval_minutes := set_field (au_resend_interval_minutes u) (al_resend_interval_minutes alert),
             al_max_resends := set_field (au_max_resends u) (al_max_resends alert)\<rparr>
       in if au_trigger_type u \<noteq> None \<or> au_trigger_config u \<noteq> None \<or> au_trigger_nulled u
          then res_bind (valid_trigger_config fit (al_trigger_type a) (al_trigger_config a))
                 (\<lambda>config. Inr (put_alert (a\<lparr>al_trigger_config := config\<rparr>) d))
          else Inr (put_alert a d))"

text \<open>Deleting for good takes the mappings and the log rows along, by the foreign keys.\<close>

definition delete_alert :: "db \<Rightarrow> instant \<Rightarrow> uuid \<Rightarrow> bool \<Rightarrow> py_error + db" where
  "delete_alert d now aid hard_delete =
     res_bind (get_alert_by_id d aid) (\<lambda>alert. Inr
       (if hard_delete
        then d\<lparr>alerts := filter (\<lambda>a. al_id a \<noteq> aid) (alerts d),
               check_mappings := filter (\<lambda>m. am_alert_id m \<noteq> aid) (check_mappings d),
               notif_mappings := filter (\<lambda>m. an_alert_id m \<noteq> aid) (notif_mappings d),
               logs := filter (\<lambda>l. nl_alert_id l \<noteq> aid) (logs d)\<rparr>
        else put_alert (alert\<lparr>al_deleted_at := Some now\<rparr>) d))"

section \<open>What configuration keeps\<close>

abbreviation mapping_key :: "AlertCheckMapping \<Rightarrow> uuid \<times> uuid" where
  "mapping_key m \<equiv> (am_alert_id m, am_check_id m)"

abbreviation provider_key :: "AlertNotificationMapping \<Rightarrow> uuid \<times> uuid" where
  "provider_key m \<equiv> (an_alert_id m, an_provider_id m)"

text \<open>Dependencies are one level deep: a check's parent exists and has no parent itself.\<close>

definition single_level :: "'a fleet_scheme \<Rightarrow> bool" where
  "single_level f \<longleftrightarrow> (\<forall>c\<in>set (checks f). \<forall>p. ck_depends_on c = Some p \<longrightarrow>
     (\<exists>q. get_check f p = Some q \<and> ck_depends_on q = None))"

definition wired :: "db \<Rightarrow> bool" where
  "wired d \<longleftrightarrow> distinct (map ck_id (checks d)) \<and> single_level d \<and>
     distinct (map mapping_key (check_mappings d)) \<and> distinct (map provider_key (notif_mappings d)) \<and>
     distinct (map al_id (alerts d))"

lemma single_level_cong: "checks f = checks g \<Longrightarrow> single_level f = single_level g"
  by (simp add: single_level_def get_check_def)

lemma single_level_other [simp]:
  "single_level (d\<lparr>check_mappings := ms\<rparr>) = single_level d"
  "single_level (d\<lparr>notif_mappings := ns\<rparr>) = single_level d"
  by (simp_all add: single_level_def get_check_def)

lemma wired_mappings:
  "wired d \<Longrightarrow> distinct (map mapping_key ms) \<Longrightarrow> wired (d\<lparr>check_mappings := ms\<rparr>)"
  using single_level_cong [of "d\<lparr>check_mappings := ms\<rparr>" d] by (simp add: wired_def)

lemma mapped_iff: "mapped d aid cid \<longleftrightarrow> (aid, cid) \<in> mapping_key ` set (check_mappings d)"
  by (auto simp: mapped_def list_ex_iff image_iff eq_commute)

lemma get_mapping_None: "get_check_mapping d aid cid = None \<longleftrightarrow> (aid, cid) \<notin> mapping_key ` set (check_mappings d)"
  by (auto simp: get_check_mapping_def find_None_iff image_iff)

lemma update_mapping_keys:
  assumes "\<And>m. mapping_key (g m) = mapping_key m"
  shows "map mapping_key (check_mappings (update_mapping aid cid g d)) = map mapping_key (check_mappings d)"
proof -
  let ?g = "\<lambda>m. if am_alert_id m = aid \<and> am_check_id m = cid then g m else m"
  have "map mapping_key (map ?g ms) = map mapping_key ms" for ms
    using assms by (induction ms) auto
  then show ?thesis by (simp add: update_mapping_def)
qed

lemma wired_update_mapping:
  assumes "wired d" "\<And>m. mapping_key (g m) = mapping_key m"
  shows "wired (update_mapping aid cid g d)"
proof -
  have "distinct (map mapping_key (check_mappings (update_mapping aid cid g d)))"
    unfolding update_mapping_keys [of g, OF assms(2)] using assms(1) by (simp add: wired_def)
  with assms(1) show ?thesis by (simp add: update_mapping_def wired_def)
qed

lemma wired_append:
  assumes "wired (d\<lparr>check_mappings := ms\<rparr>)" "distinct xs"
    and "\<forall>c\<in>set xs. \<not> mapped (d\<lparr>check_mappings := ms\<rparr>) aid c"
  shows "wired (d\<lparr>check_mappings := ms @ map (new_mapping aid) xs\<rparr>)"
proof -
  have "distinct (map mapping_key (map (new_mapping aid) xs))"
    using assms(2) by (auto simp: distinct_map o_def new_mapping_def inj_on_def)
  moreover have "(aid, c) \<notin> mapping_key ` set ms" if "c \<in> set xs" for c
    using assms(3) that by (simp add: mapped_iff)
  then have "set (map mapping_key ms) \<inter> set (map mapping_key (map (new_mapping aid) xs)) = {}"
    by (force simp: new_mapping_def)
  ultimately have "distinct (map mapping_key (ms @ map (new_mapping aid) xs))"
    using assms(1) by (simp only: map_append distinct_append wired_def db.simps) simp
  then show ?thesis using assms(1) by (simp add: wired_def)
qed

lemma wired_replace_checks:
  assumes "wired d"
  shows "wired (fst (replace_check_mappings d aid current wanted))"
proof -
  define kept where "kept = filter (\<lambda>m. \<not> (am_alert_id m = aid \<and>
      am_check_id m \<in> set (filter (\<lambda>c. c \<notin> set wanted) current))) (check_mappings d)"
  have "wired (d\<lparr>check_mappings := kept\<rparr>)"
    using assms unfolding kept_def by (intro wired_mappings) (auto simp: wired_def distinct_map_filter)
  then show ?thesis
    unfolding replace_check_mappings_def Let_def kept_def [symmetric]
    by (auto intro!: wired_append)
qed

lemma wired_replace_providers:
  assumes "wired d" "replace_provider_mappings d aid pids = Inr (d', n)"
  shows "wired d'"
proof -
  define old where "old = remdups (list_mapped_provider_ids d aid)"
  define new where "new = map (\<lambda>p. \<lparr>an_alert_id = aid, an_provider_id = p, an_is_enabled = True\<rparr>)
      (filter (\<lambda>p. p \<notin> set old) (remdups pids))"
  have "\<exists>P. notif_mappings d' = filter P (notif_mappings d) @ new"
    using assms(2) by (auto simp: replace_provider_mappings_def Let_def old_def new_def split: if_splits)
  moreover have "distinct (map provider_key new)"
    by (auto simp: new_def distinct_map o_def inj_on_def)
  moreover have "\<forall>x\<in>set (notif_mappings d). \<forall>m\<in>set new. provider_key x \<noteq> provider_key m"
    by (auto simp: new_def old_def list_mapped_provider_ids_def)
  ultimately have "distinct (map provider_key (notif_mappings d'))"
    using assms(1) by (auto simp: wired_def distinct_map_filter)
  moreover have "checks d' = checks d" "check_mappings d' = check_mappings d" "alerts d' = alerts d"
    using assms(2) by (auto simp: replace_provider_mappings_def Let_def split: if_splits)
  ultimately show ?thesis using assms single_level_cong [of d' d] by (simp add: wired_def)
qed

lemma wired_add_check: "wired d \<Longrightarrow> add_check d aid cid = Inr d' \<Longrightarrow> wired d'"
  using wired_append [of "check_mappings d" d "[cid]" aid]
  by (auto simp: add_check_def get_mapping_None mapped_iff split: option.splits if_splits)

lemma wired_remove_check: "wired d \<Longrightarrow> wired (remove_check d aid cid)"
  unfolding remove_check_def by (intro wired_mappings) (auto simp: wired_def distinct_map_filter)

lemma wired_add_checks: "wired d \<Longrightarrow> add_checks d aids cid = Inr d' \<Longrightarrow> wired d'"
  by (induction d aids cid rule: add_checks.induct) (auto simp: res_bind_Inr_iff dest: wired_add_check)

lemma wired_remove_checks: "wired d \<Longrightarrow> wired (foldl (\<lambda>x aid. remove_check x aid cid) d aids)"
  by (induction aids arbitrary: d) (auto simp: wired_remove_check)

lemma wired_sync: "wired d \<Longrightarrow> sync_check_alerts d cid aids = Inr d' \<Longrightarrow> wired d'"
  by (auto simp: sync_check_alerts_def Let_def dest!: wired_add_checks [rotated] intro: wired_remove_checks)

lemma wired_bulk_assign: "wired d \<Longrightarrow> bulk_assign r d aid cids = Inr d' \<Longrightarrow> wired d'"
  by (induction r d aid cids rule: bulk_assign.induct)
    (auto simp: Let_def res_bind_Inr_iff split: if_splits dest: wired_sync)

lemma wired_bulk_clear: "wired d \<Longrightarrow> bulk_clear_from_checks d cids = Inr d' \<Longrightarrow> wired d'"
  by (induction d cids rule: bulk_clear_from_checks.induct) (auto simp: res_bind_Inr_iff dest: wired_sync)

lemma wired_assign_global: "wired d \<Longrightarrow> wired (assign_global_alerts_to_check d cid)"
  unfolding assign_global_alerts_to_check_def
  by (intro wired_mappings)
    (auto simp: wired_def list_global_enabled_alert_ids_def list_alert_ids_for_check_def new_mapping_def
      distinct_map o_def inj_on_def)

lemma wired_copy:
  assumes "wired d" "distinct (map am_alert_id sources)"
    and "\<forall>aid\<in>am_alert_id ` set sources. aid \<in> set held \<longleftrightarrow> mapped d aid target"
  shows "wired (foldl (copy_mapping held target) d sources)"
  using assms
proof (induction sources arbitrary: d)
  case (Cons s sources)
  let ?d1 = "if am_alert_id s \<in> set held then d
      else d\<lparr>check_mappings := check_mappings d @ [new_mapping (am_alert_id s) target]\<rparr>"
  have w: "wired ?d1"
    using Cons.prems wired_append [of "check_mappings d" d "[target]" "am_alert_id s"] by simp
  have "map mapping_key (check_mappings (copy_mapping held target d s)) = map mapping_key (check_mappings ?d1)"
    unfolding copy_mapping_def Let_def by (rule update_mapping_keys) simp
  from arg_cong [OF this, of set]
  have keys: "mapping_key ` set (check_mappings (copy_mapping held target d s)) = mapping_key ` set (check_mappings ?d1)"
    by simp
  have "wired (copy_mapping held target d s)"
    unfolding copy_mapping_def Let_def by (intro wired_update_mapping w) simp
  moreover have "\<forall>aid\<in>am_alert_id ` set sources. aid \<in> set held \<longleftrightarrow> mapped (copy_mapping held target d s) aid target"
    using Cons.prems(2,3) unfolding mapped_iff keys by (auto simp: new_mapping_def mapped_iff rev_image_eqI)
  ultimately show ?case using Cons by simp
qed simp

lemma wired_copy_check_mappings:
  assumes "wired d"
  shows "wired (copy_check_mappings d src tgt)"
  unfolding copy_check_mappings_def Let_def
proof (rule wired_copy [OF assms])
  have "inj_on am_alert_id (set (list_check_mappings d src))" "distinct (list_check_mappings d src)"
    using assms by (auto simp: wired_def list_check_mappings_def distinct_map inj_on_def)
  then show "distinct (map am_alert_id (list_check_mappings d src))" by (simp add: distinct_map)
qed (force simp: mapped_def list_ex_iff list_check_mappings_def image_iff)

section \<open>Dependencies stay one level deep\<close>

lemma get_check_map:
  assumes "\<And>c. ck_id (g c) = ck_id c"
  shows "find (\<lambda>c. ck_id c = cid) (map g cs) = map_option g (find (\<lambda>c. ck_id c = cid) cs)"
  using assms by (induction cs) auto

lemma find_append:
  "find P (xs @ ys) = (case find P xs of None \<Rightarrow> find P ys | Some x \<Rightarrow> Some x)"
  by (induction xs) auto

lemma get_check_in: "get_check f cid = Some c \<Longrightarrow> c \<in> set (checks f) \<and> ck_id c = cid"
  by (auto simp: get_check_def find_Some_iff)

lemma get_check_own:
  "distinct (map ck_id (checks f)) \<Longrightarrow> c \<in> set (checks f) \<Longrightarrow> get_check f (ck_id c) = Some c"
  unfolding get_check_def by (simp add: find_by_id)

lemma no_dependents: "list_dependents f cid = [] \<longleftrightarrow> (\<forall>c\<in>set (checks f). ck_depends_on c \<noteq> Some cid)"
  by (auto simp: list_dependents_def filter_empty_conv)

text \<open>Changing dependencies by a function that keeps ids: every new edge leads to a check that has
  and keeps no parent, and every old edge kept leads to a check that keeps none.\<close>

lemma single_level_map:
  assumes "distinct (map ck_id (checks f))" "single_level f" "\<And>c. ck_id (g c) = ck_id c"
    and "\<And>c p. c \<in> set (checks f) \<Longrightarrow> ck_depends_on (g c) = Some p \<Longrightarrow>
      \<exists>q. get_check f p = Some q \<and> ck_depends_on (g q) = None"
  shows "single_level (f\<lparr>checks := map g (checks f)\<rparr>)"
  using assms by (fastforce simp: single_level_def get_check_def get_check_map)

lemma set_dependents_cases:
  assumes "set_dependents f pid cids adm = Inr (f', a, r)"
  obtains parent to_add to_remove where "get_check f pid = Some parent" "ck_depends_on parent = None"
    "pid \<notin> set cids" "\<forall>c\<in>set cids. get_check f c \<noteq> None \<and> list_dependents f c = []"
    "to_add = filter (\<lambda>c. c \<notin> set (map ck_id (list_dependents f pid))) (remdups cids)"
    "to_remove = filter (\<lambda>c. c \<notin> set cids) (map ck_id (list_dependents f pid))"
    "list_ex (is_synthetic f) (to_add @ to_remove) \<longrightarrow> adm"
    "f' = set_parent pid to_add to_remove f" "a = length to_add" "r = length to_remove"
  using assms
  by (auto simp: set_dependents_def Let_def res_bind_Inr_iff require_admin_actor_def parents_among_def
      list_ex_iff filter_empty_conv split: option.splits if_splits)

lemma set_dependents_level:
  assumes "set_dependents f pid cids adm = Inr (f', a, r)"
    and ok: "distinct (map ck_id (checks f))" "single_level f"
  shows "single_level f' \<and> map ck_id (checks f') = map ck_id (checks f)"
proof -
  from assms(1) obtain parent to_add to_remove where p: "get_check f pid = Some parent" "ck_depends_on parent = None"
    "pid \<notin> set cids" and kids: "\<forall>c\<in>set cids. get_check f c \<noteq> None \<and> list_dependents f c = []"
    and sets: "to_add = filter (\<lambda>c. c \<notin> set (map ck_id (list_dependents f pid))) (remdups cids)"
      "to_remove = filter (\<lambda>c. c \<notin> set cids) (map ck_id (list_dependents f pid))"
    and f': "f' = set_parent pid to_add to_remove f"
    by (rule set_dependents_cases)
  let ?g = "\<lambda>c. if ck_id c \<in> set to_remove then c\<lparr>ck_depends_on := None\<rparr>
      else if ck_id c \<in> set to_add then c\<lparr>ck_depends_on := Some pid\<rparr> else c"
  have none: "ck_depends_on (?g q) = None" if "ck_depends_on q = None" "ck_id q \<notin> set cids" for q
    using that sets by simp
  have "single_level (f\<lparr>checks := map ?g (checks f)\<rparr>)"
  proof (rule single_level_map [OF ok])
    fix c p0
    assume c: "c \<in> set (checks f)" "ck_depends_on (?g c) = Some p0"
    show "\<exists>q. get_check f p0 = Some q \<and> ck_depends_on (?g q) = None"
    proof (cases "ck_id c \<in> set to_add")
      case True
      with c sets have "p0 = pid" by (auto split: if_splits)
      then show ?thesis
        using p get_check_in [OF p(1)] by (intro exI [of _ parent] conjI none) auto
    next
      case False
      with c have old: "ck_depends_on c = Some p0" by (auto split: if_splits)
      with ok(2) c(1) obtain q where q: "get_check f p0 = Some q" "ck_depends_on q = None"
        by (auto simp: single_level_def)
      have "p0 \<notin> set cids" using kids old c(1) by (auto simp: no_dependents)
      with q get_check_in [OF q(1)] show ?thesis by (intro exI [of _ q] conjI none) auto
    qed
  qed simp
  moreover have "map ck_id (map ?g (checks f)) = map ck_id (checks f)" by (induction "checks f") auto
  ultimately show ?thesis by (simp add: f' set_parent_def)
qed

lemma set_one_level:
  assumes v: "validate_dependency f parent (Some cid) = Inr ()"
    and ok: "distinct (map ck_id (checks f))" "single_level f"
    and g: "\<And>c. ck_id (g c) = ck_id c" "\<And>c. ck_depends_on (g c) = (if ck_id c = cid then parent else ck_depends_on c)"
  shows "single_level (f\<lparr>checks := map g (checks f)\<rparr>)"
proof (rule single_level_map [OF ok g(1)])
  fix c p
  assume c: "c \<in> set (checks f)" "ck_depends_on (g c) = Some p"
  show "\<exists>q. get_check f p = Some q \<and> ck_depends_on (g q) = None"
  proof (cases "ck_id c = cid")
    case True
    with c v obtain q where "get_check f p = Some q" "ck_depends_on q = None" "p \<noteq> cid"
      by (auto simp: g validate_dependency_def split: option.splits if_splits)
    then show ?thesis by (auto simp: g dest: get_check_in)
  next
    case False
    with c have old: "ck_depends_on c = Some p" by (simp add: g)
    with ok(2) c(1) obtain q where q: "get_check f p = Some q" "ck_depends_on q = None"
      by (auto simp: single_level_def)
    have "parent = None \<or> p \<noteq> cid"
      using v old c(1) by (auto simp: validate_dependency_def count_dependents_def no_dependents
          split: option.splits if_splits)
    with q show ?thesis by (auto simp: g dest: get_check_in)
  qed
qed

lemma keep_level:
  assumes "distinct (map ck_id (checks f))" "single_level f"
    and g: "\<And>c. ck_id (g c) = ck_id c" "\<And>c. c \<in> set (checks f) \<Longrightarrow> ck_depends_on (g c) = ck_depends_on c"
  shows "single_level (f\<lparr>checks := map g (checks f)\<rparr>)"
proof (rule single_level_map [OF assms(1,2) g(1)])
  fix c p
  assume "c \<in> set (checks f)" "ck_depends_on (g c) = Some p"
  then show "\<exists>q. get_check f p = Some q \<and> ck_depends_on (g q) = None"
    using assms(2) g(2) by (fastforce simp: single_level_def dest: get_check_in)
qed

lemma create_level:
  assumes v: "validate_dependency f (ck_depends_on c) None = Inr ()"
    and ok: "single_level f" and fresh: "ck_id c \<notin> set (map ck_id (checks f))"
  shows "single_level (f\<lparr>checks := checks f @ [c]\<rparr>)"
proof -
  have "get_check f p = Some q \<Longrightarrow> get_check (f\<lparr>checks := checks f @ [c]\<rparr>) p = Some q" for p q
    by (auto simp: get_check_def find_append)
  moreover have "ck_depends_on c = Some p \<Longrightarrow> \<exists>q. get_check f p = Some q \<and> ck_depends_on q = None" for p
    using v by (auto simp: validate_dependency_def split: option.splits if_splits)
  ultimately show ?thesis using ok by (fastforce simp: single_level_def)
qed

lemma drop_level:
  assumes "single_level f"
  shows "single_level (f\<lparr>checks := map (\<lambda>x. if ck_depends_on x \<in> Some ` D then x\<lparr>ck_depends_on := None\<rparr> else x)
     (filter (\<lambda>x. ck_id x \<notin> D) (checks f))\<rparr>)"
proof -
  let ?g = "\<lambda>x. if ck_depends_on x \<in> Some ` D then x\<lparr>ck_depends_on := None\<rparr> else x"
  have other: "find (\<lambda>c. ck_id c = p) (filter (\<lambda>x. ck_id x \<notin> D) cs) = find (\<lambda>c. ck_id c = p) cs"
    if "p \<notin> D" for p cs
    using that by (induction cs) auto
  have look: "find (\<lambda>c. ck_id c = p) (map ?g cs) = map_option ?g (find (\<lambda>c. ck_id c = p) cs)" for p cs
    by (rule get_check_map) simp
  show ?thesis
    unfolding single_level_def get_check_def
  proof (intro ballI allI impI)
    fix c p
    assume "c \<in> set (checks (f\<lparr>checks := map ?g (filter (\<lambda>x. ck_id x \<notin> D) (checks f))\<rparr>))" "ck_depends_on c = Some p"
    then obtain c0 where "c0 \<in> set (checks f)" "ck_depends_on c0 = Some p" "p \<notin> D"
      by (auto split: if_splits)
    with assms obtain q where "find (\<lambda>c. ck_id c = p) (checks f) = Some q" "ck_depends_on q = None"
      by (auto simp: single_level_def get_check_def)
    with \<open>p \<notin> D\<close> show "\<exists>q. find (\<lambda>c. ck_id c = p)
        (checks (f\<lparr>checks := map ?g (filter (\<lambda>x. ck_id x \<notin> D) (checks f))\<rparr>)) = Some q \<and> ck_depends_on q = None"
      by (simp add: look other)
  qed
qed

section \<open>Alert operations keep the wiring\<close>

lemma wired_add_alert:
  assumes w: "wired d" and "add_alert d a ps cs = Inr d'"
    and fresh: "al_id a \<notin> al_id ` set (alerts d)" "al_id a \<notin> am_alert_id ` set (check_mappings d)"
      "al_id a \<notin> an_alert_id ` set (notif_mappings d)"
  shows "wired d'"
proof -
  let ?ns = "map (\<lambda>p. \<lparr>an_alert_id = al_id a, an_provider_id = p, an_is_enabled = True\<rparr>) ps"
  have d': "d' = d\<lparr>alerts := alerts d @ [a], notif_mappings := notif_mappings d @ ?ns,
      check_mappings := check_mappings d @ map (new_mapping (al_id a)) cs\<rparr>" and "distinct ps" "distinct cs"
    using assms(2) by (auto simp: add_alert_def split: if_splits)
  then have "distinct (map provider_key ?ns)" "distinct (map mapping_key (map (new_mapping (al_id a)) cs))"
    by (auto simp: distinct_map o_def new_mapping_def inj_on_def)
  moreover have "(al_id a, x) \<notin> mapping_key ` set (check_mappings d)"
    "(al_id a, x) \<notin> provider_key ` set (notif_mappings d)" for x
    using fresh(2,3) by (auto simp: image_iff)
  then have "set (map provider_key (notif_mappings d)) \<inter> set (map provider_key ?ns) = {}"
    "set (map mapping_key (check_mappings d)) \<inter> set (map mapping_key (map (new_mapping (al_id a)) cs)) = {}"
    by (force simp: new_mapping_def)+
  ultimately have "distinct (map provider_key (notif_mappings d @ ?ns))"
    "distinct (map mapping_key (check_mappings d @ map (new_mapping (al_id a)) cs))"
    using w by (simp_all only: map_append distinct_append wired_def simp_thms)
  moreover have "single_level d'" using w single_level_cong [of d' d] by (simp add: d' wired_def)
  ultimately show ?thesis using w fresh(1) by (simp add: d' wired_def)
qed

lemma wired_put_alert: "wired d \<Longrightarrow> wired (put_alert a d)"
proof -
  have "al_id \<circ> (\<lambda>x. if al_id x = al_id a then a else x) = al_id" by auto
  moreover assume "wired d"
  moreover have "single_level (put_alert a d) = single_level d"
    by (rule single_level_cong) (simp add: put_alert_def)
  ultimately show ?thesis by (simp only: wired_def put_alert_def) simp
qed

lemma wired_update_alert: "wired d \<Longrightarrow> update_alert nz d aid u = Inr d' \<Longrightarrow> wired d'"
  by (auto simp: update_alert_def Let_def res_bind_Inr_iff wired_put_alert split: if_splits)

lemma wired_delete_alert:
  assumes "wired d" "delete_alert d now aid hard = Inr d'"
  shows "wired d'"
proof (cases hard)
  case True
  then have "single_level d' = single_level d"
    using assms(2) by (intro single_level_cong) (auto simp: delete_alert_def res_bind_Inr_iff)
  with True show ?thesis
    using assms by (auto simp: delete_alert_def res_bind_Inr_iff wired_def distinct_map_filter)
qed (use assms in \<open>auto simp: delete_alert_def res_bind_Inr_iff wired_put_alert\<close>)

end
