(* ===== verification/Checks.thy ===== *)
theory Checks
  imports Wiring
begin

text \<open>
  Checks: creating, cloning, changing, deleting and importing them, one by one and in bulk
  (\<^verbatim>\<open>services/core/check_core_service.py\<close>), with the packing of type-specific settings
  (\<^verbatim>\<open>core/check_config.py\<close>) and the gate for synthetic checks (\<^verbatim>\<open>core/synthetic_guard.py\<close>).
  The verdicts on addresses and scripts are parameters, as is the configured default timeout.
  An explicit null for a column that takes none is refused by the database at the flush and not
  among the updates here; \<^verbatim>\<open>updated_at\<close> is not kept.
\<close>

record vetting =
  target_ok :: "string \<Rightarrow> bool"
  script_ok :: "string \<Rightarrow> bool"
  default_timeout :: int

section \<open>Type-specific settings\<close>

definition TYPE_FIELDS :: "(string \<times> string list) list" where
  "TYPE_FIELDS =
     [(''http'', [''http_method'', ''verify_ssl'', ''expected_status'']),
      (''json'', [''http_method'', ''verify_ssl'', ''expected_status'', ''json_path'', ''expected_value'']),
      (''dns'', [''record_type'', ''nameserver'', ''port'', ''expect_value'']),
      (''mysql'', [''connection_string'', ''query'']),
      (''postgres'', [''connection_string'', ''query''])]"

definition ALL_CONFIG_FIELDS :: "string list" where
  "ALL_CONFIG_FIELDS = concat (map snd TYPE_FIELDS)"

definition type_fields :: "string \<Rightarrow> string list" where
  "type_fields ty = (case map_of TYPE_FIELDS ty of None \<Rightarrow> [] | Some fs \<Rightarrow> fs)"

definition is_set :: "json \<Rightarrow> bool" where
  "is_set v \<longleftrightarrow> v \<noteq> JNull \<and> v \<noteq> JStr []"

definition pack_config :: "dict \<Rightarrow> string \<Rightarrow> dict" where
  "pack_config data ty =
     [(f, v). f \<leftarrow> type_fields ty, v \<leftarrow> [dict_get_or data f JNull], is_set v]"

definition keep_type_fields :: "dict \<Rightarrow> string \<Rightarrow> dict" where
  "keep_type_fields config ty =
     filter (\<lambda>(k, v). k \<notin> set ALL_CONFIG_FIELDS \<or> k \<in> set (type_fields ty)) config"

text \<open>The updates, and what is left of the update data.\<close>

definition take_config_updates :: "dict \<Rightarrow> string \<Rightarrow> dict \<times> dict" where
  "take_config_updates update_data ty =
     ([(f, v). f \<leftarrow> type_fields ty, v \<leftarrow> (case dict_get update_data f of None \<Rightarrow> [] | Some v \<Rightarrow> [v]), is_set v],
      filter (\<lambda>(k, v). k \<notin> set ALL_CONFIG_FIELDS) update_data)"

definition dict_update :: "dict \<Rightarrow> dict \<Rightarrow> dict" where
  "dict_update d new = fold (\<lambda>(k, v). dict_set k v) new d"

section \<open>Payloads\<close>

record CheckCreate =
  cc_display_name :: string
  cc_check_type :: string
  cc_target :: string
  cc_description :: "string option"
  cc_interval_seconds :: "int option"
  cc_timeout_seconds :: int
  cc_enabled :: bool
  cc_retry_attempts :: "int option"
  cc_retry_interval_seconds :: int
  cc_resend_notification_after :: "int option"
  cc_tags :: "string list option"
  cc_assignment_mode :: AssignmentMode
  cc_agent_selector :: "dict option"
  cc_script_code :: "string option"
  cc_depends_on :: "uuid option"
  cc_config :: dict

text \<open>An update holds the fields sent: \<open>None\<close> is a field not sent, \<open>Some None\<close> one sent as null.
  The type-specific ones are kept by name.\<close>

record CheckUpdate =
  cu_display_name :: "string option"
  cu_check_type :: "string option"
  cu_target :: "string option"
  cu_description :: "string option option"
  cu_interval_seconds :: "int option option"
  cu_timeout_seconds :: "int option option"
  cu_enabled :: "bool option"
  cu_retry_attempts :: "int option option"
  cu_retry_interval_seconds :: "int option"
  cu_resend_notification_after :: "int option option"
  cu_tags :: "string list option option"
  cu_assignment_mode :: "AssignmentMode option"
  cu_agent_selector :: "dict option option"
  cu_script_code :: "string option option"
  cu_depends_on :: "uuid option option"
  cu_config :: dict

definition no_update :: CheckUpdate where
  "no_update = \<lparr>cu_display_name = None, cu_check_type = None, cu_target = None, cu_description = None,
     cu_interval_seconds = None, cu_timeout_seconds = None, cu_enabled = None, cu_retry_attempts = None,
     cu_retry_interval_seconds = None, cu_resend_notification_after = None, cu_tags = None,
     cu_assignment_mode = None, cu_agent_selector = None, cu_script_code = None, cu_depends_on = None,
     cu_config = []\<rparr>"

section \<open>One check\<close>

text \<open>The address an endpoint field holds, when it holds one.\<close>

definition text_of :: "json option \<Rightarrow> string option" where
  "text_of v = (case v of Some (JStr s) \<Rightarrow> Some s | _ \<Rightarrow> None)"

definition endpoint_ok :: "vetting \<Rightarrow> string option \<Rightarrow> bool" where
  "endpoint_ok v e \<longleftrightarrow> (case e of None \<Rightarrow> True | Some s \<Rightarrow> s = [] \<or> target_ok v s)"

definition validate_endpoints_ssrf :: "vetting \<Rightarrow> string option list \<Rightarrow> py_error + unit" where
  "validate_endpoints_ssrf v endpoints =
     (if list_all (endpoint_ok v) endpoints then Inr () else Inl (ValidationException ''Check target blocked''))"

definition validate_script :: "vetting \<Rightarrow> string \<Rightarrow> py_error + unit" where
  "validate_script v s = (if script_ok v s then Inr () else Inl (ValidationException ''SyntheticSecurityError''))"

definition get_admitted_agent :: "'a fleet_scheme \<Rightarrow> uuid \<Rightarrow> py_error + Agent" where
  "get_admitted_agent f aid =
     res_bind (get_agent_by_id f aid) (\<lambda>a.
       if ag_approval_status a \<in> set UNADMITTED_AGENT_STATUSES
       then Inl (ValidationException ''Agent takes no checks'') else Inr a)"

definition get_check_by_id :: "'a fleet_scheme \<Rightarrow> uuid \<Rightarrow> py_error + Check" where
  "get_check_by_id f cid =
     (case get_check f cid of None \<Rightarrow> Inl (NotFoundException ''Check'') | Some c \<Rightarrow> Inr c)"

definition touch_agents :: "uuid list \<Rightarrow> instant \<Rightarrow> 'a fleet_scheme \<Rightarrow> 'a fleet_scheme" where
  "touch_agents aids now f =
     f\<lparr>agents := map (\<lambda>a. if ag_id a \<in> set aids then a\<lparr>ag_checks_updated_at := Some now\<rparr> else a) (agents f)\<rparr>"

definition put_check :: "Check \<Rightarrow> 'a fleet_scheme \<Rightarrow> 'a fleet_scheme" where
  "put_check c f = f\<lparr>checks := map (\<lambda>x. if ck_id x = ck_id c then c else x) (checks f)\<rparr>"

definition new_check :: "uuid \<Rightarrow> instant \<Rightarrow> Agent \<Rightarrow> CheckCreate \<Rightarrow> Check" where
  "new_check cid now agent data =
     (let config = pack_config (cc_config data) (cc_check_type data) in
      \<lparr>ck_id = cid, ck_display_name = cc_display_name data, ck_check_type = cc_check_type data,
       ck_depends_on = cc_depends_on data, ck_agent_id = ag_id agent, ck_enabled = cc_enabled data,
       ck_assignment_mode = cc_assignment_mode data, ck_agent_selector = cc_agent_selector data,
       ck_interval_seconds = cc_interval_seconds data, ck_created_at = now, ck_target = cc_target data,
       ck_description = cc_description data, ck_timeout_seconds = Some (cc_timeout_seconds data),
       ck_retry_attempts = cc_retry_attempts data,
       ck_retry_interval_seconds = cc_retry_interval_seconds data,
       ck_resend_notification_after = cc_resend_notification_after data, ck_tags = cc_tags data,
       ck_check_config = (if config = [] then None else Some config),
       ck_script_code = (if cc_check_type data = SYNTHETIC then cc_script_code data else None)\<rparr>)"

definition create_check :: "vetting \<Rightarrow> db \<Rightarrow> instant \<Rightarrow> uuid \<Rightarrow> uuid \<Rightarrow> CheckCreate \<Rightarrow> bool \<Rightarrow> bool \<Rightarrow> py_error + db" where
  "create_check v d now new_id aid data skip_config_update actor_is_admin =
     res_bind (get_admitted_agent d aid) (\<lambda>agent.
       res_bind (validate_endpoints_ssrf v [Some (cc_target data),
           text_of (dict_get (cc_config data) ''nameserver''),
           text_of (dict_get (cc_config data) ''connection_string'')]) (\<lambda>_.
         res_bind (validate_dependency d (cc_depends_on data) None) (\<lambda>_.
           res_bind (if cc_check_type data = SYNTHETIC
                     then res_bind (require_admin_actor actor_is_admin) (\<lambda>_.
                            case cc_script_code data of
                              None \<Rightarrow> Inr () | Some s \<Rightarrow> if s = [] then Inr () else validate_script v s)
                     else Inr ()) (\<lambda>_.
             let check = new_check new_id now agent data;
                 d1 = assign_global_alerts_to_check (d\<lparr>checks := checks d @ [check]\<rparr>) new_id
             in Inr (if skip_config_update then d1 else touch_agents [ag_id agent] now d1)))))"

definition pick_field :: "'a option option \<Rightarrow> 'a option \<Rightarrow> 'a option" where
  "pick_field sent old = (case sent of Some (Some x) \<Rightarrow> Some x | _ \<Rightarrow> old)"

text \<open>What a check says of its settings; only a database check has a connection string.\<close>

definition stored_config :: "Check \<Rightarrow> dict" where
  "stored_config c =
     (case ck_check_config c of
        None \<Rightarrow> []
      | Some config \<Rightarrow> filter (\<lambda>(k, x). k = ''connection_string'' \<longrightarrow> ck_check_type c \<in> {''mysql'', ''postgres''}) config)"

text \<open>The clone's payload: the source, with the fields the caller set to something.\<close>

definition merge_clone_data :: "vetting \<Rightarrow> Check \<Rightarrow> CheckUpdate \<Rightarrow> CheckCreate" where
  "merge_clone_data v source u =
     \<lparr>cc_display_name = set_field (cu_display_name u) (ck_display_name source),
          cc_check_type = set_field (cu_check_type u) (ck_check_type source),
          cc_target = set_field (cu_target u) (ck_target source),
          cc_description = pick_field (cu_description u) (ck_description source),
          cc_interval_seconds = pick_field (cu_interval_seconds u) (ck_interval_seconds source),
          cc_timeout_seconds =
            (case pick_field (cu_timeout_seconds u) (ck_timeout_seconds source) of
               None \<Rightarrow> default_timeout v | Some x \<Rightarrow> x),
          cc_enabled = set_field (cu_enabled u) (ck_enabled source),
          cc_retry_attempts = pick_field (cu_retry_attempts u) (ck_retry_attempts source),
          cc_retry_interval_seconds = set_field (cu_retry_interval_seconds u) (ck_retry_interval_seconds source),
          cc_resend_notification_after =
            pick_field (cu_resend_notification_after u) (ck_resend_notification_after source),
          cc_tags = pick_field (cu_tags u) (ck_tags source),
          cc_assignment_mode = set_field (cu_assignment_mode u) (ck_assignment_mode source),
          cc_agent_selector = pick_field (cu_agent_selector u) (ck_agent_selector source),
          cc_script_code = pick_field (cu_script_code u) (ck_script_code source),
          cc_depends_on = pick_field (cu_depends_on u) (ck_depends_on source),
          cc_config = dict_update (stored_config source) (filter (\<lambda>(k, x). x \<noteq> JNull) (cu_config u))\<rparr>"

definition clone_check :: "vetting \<Rightarrow> db \<Rightarrow> instant \<Rightarrow> uuid \<Rightarrow> uuid \<Rightarrow> uuid \<Rightarrow> CheckUpdate \<Rightarrow> bool \<Rightarrow> bool \<Rightarrow> py_error + db" where
  "clone_check v d now new_id source_id aid overrides skip_config_update actor_is_admin =
     res_bind (get_check_by_id d source_id) (\<lambda>source.
       res_bind (get_agent_by_id d aid) (\<lambda>_.
         res_bind (create_check v d now new_id aid (merge_clone_data v source overrides)
             skip_config_update actor_is_admin) (\<lambda>d1.
           Inr (copy_check_mappings d1 source_id new_id))))"

text \<open>A change to a check. An error raised on the way leaves the row in the session as changed so far:
  the settings are merged before the script is judged. A request that fails rolls it back.\<close>

definition merged_config :: "CheckUpdate \<Rightarrow> string \<Rightarrow> Check \<Rightarrow> Check" where
  "merged_config u ty c =
     (let updates = fst (take_config_updates (cu_config u) ty);
          type_changes = (ty \<noteq> ck_check_type c);
          held = (case ck_check_config c of None \<Rightarrow> [] | Some config \<Rightarrow> config);
          base = (if type_changes then keep_type_fields held ty else held)
      in if updates \<noteq> [] \<or> type_changes then c\<lparr>ck_check_config := Some (dict_update base updates)\<rparr> else c)"

definition set_columns :: "CheckUpdate \<Rightarrow> string option \<Rightarrow> Check \<Rightarrow> Check" where
  "set_columns u script c =
     c\<lparr>ck_display_name := set_field (cu_display_name u) (ck_display_name c),
       ck_check_type := set_field (cu_check_type u) (ck_check_type c),
       ck_depends_on := set_field (cu_depends_on u) (ck_depends_on c),
       ck_enabled := set_field (cu_enabled u) (ck_enabled c),
       ck_assignment_mode := set_field (cu_assignment_mode u) (ck_assignment_mode c),
       ck_agent_selector := set_field (cu_agent_selector u) (ck_agent_selector c),
       ck_interval_seconds := set_field (cu_interval_seconds u) (ck_interval_seconds c),
       ck_target := set_field (cu_target u) (ck_target c),
       ck_description := set_field (cu_description u) (ck_description c),
       ck_timeout_seconds := set_field (cu_timeout_seconds u) (ck_timeout_seconds c),
       ck_retry_attempts := set_field (cu_retry_attempts u) (ck_retry_attempts c),
       ck_retry_interval_seconds := set_field (cu_retry_interval_seconds u) (ck_retry_interval_seconds c),
       ck_resend_notification_after := set_field (cu_resend_notification_after u) (ck_resend_notification_after c),
       ck_tags := set_field (cu_tags u) (ck_tags c),
       ck_script_code := script\<rparr>"

definition update_checked :: "vetting \<Rightarrow> 'a fleet_scheme \<Rightarrow> Check \<Rightarrow> CheckUpdate \<Rightarrow> bool \<Rightarrow> py_error + unit" where
  "update_checked v f c u actor_is_admin =
     res_bind (validate_endpoints_ssrf v [cu_target u, text_of (dict_get (cu_config u) ''nameserver''),
         text_of (dict_get (cu_config u) ''connection_string'')]) (\<lambda>_.
       res_bind (case cu_depends_on u of
                   None \<Rightarrow> Inr () | Some parent \<Rightarrow> validate_dependency f parent (Some (ck_id c))) (\<lambda>_.
         if SYNTHETIC \<in> {ck_check_type c, set_field (cu_check_type u) (ck_check_type c)}
         then require_admin_actor actor_is_admin else Inr ()))"

definition update_script :: "CheckUpdate \<Rightarrow> string \<Rightarrow> Check \<Rightarrow> string option" where
  "update_script u ty c = (if ty \<noteq> SYNTHETIC then None else set_field (cu_script_code u) (ck_script_code c))"

definition script_refused :: "vetting \<Rightarrow> CheckUpdate \<Rightarrow> string \<Rightarrow> Check \<Rightarrow> py_error option" where
  "script_refused v u ty c =
     (case update_script u ty c of
        Some s \<Rightarrow>
          (if ty = SYNTHETIC \<and> s \<noteq> [] \<and> (cu_script_code u \<noteq> None \<or> ck_check_type c \<noteq> SYNTHETIC)
           then (case validate_script v s of Inl e \<Rightarrow> Some e | Inr _ \<Rightarrow> None) else None)
      | None \<Rightarrow> None)"

definition update_check :: "vetting \<Rightarrow> db \<Rightarrow> instant \<Rightarrow> uuid \<Rightarrow> CheckUpdate \<Rightarrow> bool \<Rightarrow> py_error option \<times> db" where
  "update_check v d now cid u actor_is_admin =
     (case get_check_by_id d cid of
        Inl e \<Rightarrow> (Some e, d)
      | Inr c \<Rightarrow>
          (case update_checked v d c u actor_is_admin of
             Inl e \<Rightarrow> (Some e, d)
           | Inr _ \<Rightarrow>
               (let ty = set_field (cu_check_type u) (ck_check_type c);
                    c1 = merged_config u ty c
                in case script_refused v u ty c of
                     Some e \<Rightarrow> (Some e, put_check c1 d)
                   | None \<Rightarrow>
                       (None, touch_agents [ck_agent_id c] now
                          (put_check (set_columns u (update_script u ty c) c1) d)))))"

text \<open>A request's transaction: an error rolls it back.\<close>

definition committed :: "py_error option \<times> 'd \<Rightarrow> py_error + 'd" where
  "committed r = (case r of (Some e, _) \<Rightarrow> Inl e | (None, d) \<Rightarrow> Inr d)"

text \<open>Deleting checks takes their mappings and results along and frees their dependents, by the
  foreign keys.\<close>

definition drop_checks :: "uuid list \<Rightarrow> db \<Rightarrow> db" where
  "drop_checks ids d =
     d\<lparr>checks := map (\<lambda>x. if ck_depends_on x \<in> Some ` set ids then x\<lparr>ck_depends_on := None\<rparr> else x)
          (filter (\<lambda>x. ck_id x \<notin> set ids) (checks d)),
       check_mappings := filter (\<lambda>m. am_check_id m \<notin> set ids) (check_mappings d),
       results := filter (\<lambda>r. cr_check_id r \<notin> set ids) (results d)\<rparr>"

definition delete_check :: "db \<Rightarrow> instant \<Rightarrow> uuid \<Rightarrow> bool \<Rightarrow> py_error + db" where
  "delete_check d now cid actor_is_admin =
     res_bind (get_check_by_id d cid) (\<lambda>c.
       res_bind (if ck_check_type c = SYNTHETIC then require_admin_actor actor_is_admin else Inr ()) (\<lambda>_.
         Inr (touch_agents [ck_agent_id c] now (drop_checks [cid] d))))"

section \<open>With alerts\<close>

text \<open>An alert already added is what the caller asked for.\<close>

fun assign_each :: "db \<Rightarrow> uuid \<Rightarrow> uuid list \<Rightarrow> db" where
  "assign_each d cid [] = d"
| "assign_each d cid (aid # aids) =
     assign_each (case add_check d aid cid of Inl _ \<Rightarrow> d | Inr d1 \<Rightarrow> d1) cid aids"

definition assign_alerts :: "db \<Rightarrow> uuid \<Rightarrow> uuid list \<Rightarrow> py_error + db" where
  "assign_alerts d cid aids = res_bind (get_check_by_id d cid) (\<lambda>_. Inr (assign_each d cid aids))"

definition create_check_with_alerts ::
    "vetting \<Rightarrow> db \<Rightarrow> instant \<Rightarrow> uuid \<Rightarrow> uuid \<Rightarrow> CheckCreate \<Rightarrow> uuid list \<Rightarrow> bool \<Rightarrow> py_error + db" where
  "create_check_with_alerts v d now new_id aid data alert_ids actor_is_admin =
     res_bind (create_check v d now new_id aid data False actor_is_admin) (\<lambda>d1. assign_alerts d1 new_id alert_ids)"

definition update_check_with_alerts ::
    "vetting \<Rightarrow> db \<Rightarrow> instant \<Rightarrow> uuid \<Rightarrow> CheckUpdate \<Rightarrow> uuid list option \<Rightarrow> bool \<Rightarrow> py_error + db" where
  "update_check_with_alerts v d now cid u alert_ids actor_is_admin =
     res_bind (committed (update_check v d now cid u actor_is_admin)) (\<lambda>d1.
       case alert_ids of None \<Rightarrow> Inr d1 | Some aids \<Rightarrow> sync_check_alerts d1 cid aids)"

definition clone_check_with_alerts ::
    "vetting \<Rightarrow> db \<Rightarrow> instant \<Rightarrow> uuid \<Rightarrow> uuid \<Rightarrow> uuid \<Rightarrow> CheckUpdate \<Rightarrow> uuid list \<Rightarrow> bool \<Rightarrow> py_error + db" where
  "clone_check_with_alerts v d now new_id source_id aid overrides alert_ids actor_is_admin =
     res_bind (clone_check v d now new_id source_id aid overrides False actor_is_admin) (\<lambda>d1.
       sync_check_alerts d1 new_id alert_ids)"

section \<open>Many checks\<close>

record outcome =
  success_count :: int
  failure_count :: int
  errors :: "py_error list"

definition bulk_permitted :: "'a fleet_scheme \<Rightarrow> uuid list \<Rightarrow> bool \<Rightarrow> uuid list \<times> py_error list" where
  "bulk_permitted f ids actor_is_admin =
     (if actor_is_admin \<or> ids = [] then (ids, [])
      else (filter (\<lambda>c. \<not> is_synthetic f c) ids,
            map (\<lambda>_. AuthorizationException ''synthetic checks require admin privileges'') (filter (is_synthetic f) ids)))"

definition with_refused :: "outcome \<Rightarrow> py_error list \<Rightarrow> outcome" where
  "with_refused r refused =
     \<lparr>success_count = success_count r, failure_count = failure_count r + int (length refused),
      errors = refused @ errors r\<rparr>"

definition bulk_outcome :: "uuid list \<Rightarrow> nat \<Rightarrow> outcome" where
  "bulk_outcome ids n =
     (let missing = int (card (set ids)) - int n
      in \<lparr>success_count = int n, failure_count = missing,
          errors = (if missing \<noteq> 0 then [NotFoundException ''check(s) not found''] else [])\<rparr>)"

definition agents_of :: "'a fleet_scheme \<Rightarrow> uuid list \<Rightarrow> uuid list" where
  "agents_of f ids = map ck_agent_id (filter (\<lambda>c. ck_id c \<in> set ids) (checks f))"

text \<open>\<open>db_ok\<close>: the statements of the savepoint go through.\<close>

definition bulk_set_enabled ::
    "db \<Rightarrow> instant \<Rightarrow> bool \<Rightarrow> uuid list \<Rightarrow> bool \<Rightarrow> bool \<Rightarrow> db \<times> outcome" where
  "bulk_set_enabled d now db_ok check_ids enabled actor_is_admin =
     (let (ids, refused) = bulk_permitted d check_ids actor_is_admin
      in if ids = [] then (d, with_refused \<lparr>success_count = 0, failure_count = 0, errors = []\<rparr> refused)
         else if \<not> db_ok
         then (d, with_refused \<lparr>success_count = 0, failure_count = int (length ids), errors = [IntegrityError]\<rparr> refused)
         else (touch_agents (agents_of d ids) now
                 (d\<lparr>checks := map (\<lambda>c. if ck_id c \<in> set ids then c\<lparr>ck_enabled := enabled\<rparr> else c) (checks d)\<rparr>),
               with_refused (bulk_outcome ids (length (filter (\<lambda>c. ck_id c \<in> set ids) (checks d)))) refused))"

definition bulk_delete :: "db \<Rightarrow> instant \<Rightarrow> bool \<Rightarrow> uuid list \<Rightarrow> bool \<Rightarrow> db \<times> outcome" where
  "bulk_delete d now db_ok check_ids actor_is_admin =
     (let (ids, refused) = bulk_permitted d check_ids actor_is_admin
      in if ids = [] then (d, with_refused \<lparr>success_count = 0, failure_count = 0, errors = []\<rparr> refused)
         else if \<not> db_ok
         then (d, with_refused \<lparr>success_count = 0, failure_count = int (length ids), errors = [IntegrityError]\<rparr> refused)
         else (drop_checks ids (touch_agents (agents_of d ids) now d),
               with_refused (bulk_outcome ids (length (filter (\<lambda>c. ck_id c \<in> set ids) (checks d)))) refused))"

definition move_check_to_agent :: "Check \<Rightarrow> Agent \<Rightarrow> CheckUpdate \<Rightarrow> Check" where
  "move_check_to_agent c new_agent u =
     c\<lparr>ck_agent_id := ag_id new_agent,
       ck_interval_seconds := pick_field (cu_interval_seconds u) (ck_interval_seconds c),
       ck_timeout_seconds := pick_field (cu_timeout_seconds u) (ck_timeout_seconds c),
       ck_retry_attempts := pick_field (cu_retry_attempts u) (ck_retry_attempts c),
       ck_enabled := set_field (cu_enabled u) (ck_enabled c),
       ck_tags := pick_field (cu_tags u) (ck_tags c),
       ck_description := pick_field (cu_description u) (ck_description c)\<rparr>"

text \<open>One check of a bulk modification: the error, if any, the session after it, and the agents to
  touch at the end. \<open>target\<close> is the agent moved to, looked up beforehand.\<close>

definition modify_one ::
    "vetting \<Rightarrow> instant \<Rightarrow> CheckUpdate \<Rightarrow> uuid option \<Rightarrow> py_error + Agent \<Rightarrow> bool \<Rightarrow> db \<Rightarrow> uuid
      \<Rightarrow> py_error option \<times> db \<times> uuid list" where
  "modify_one v now u new_agent_id target actor_is_admin d cid =
     (case get_check_by_id d cid of
        Inl e \<Rightarrow> (Some e, d, [])
      | Inr c \<Rightarrow>
          (if new_agent_id \<noteq> None \<and> new_agent_id \<noteq> Some (ck_agent_id c)
           then (case target of
                   Inl _ \<Rightarrow> (Some ValueError, d, [])
                 | Inr a \<Rightarrow>
                     (if ck_check_type c = SYNTHETIC \<and> \<not> actor_is_admin
                      then (Some (AuthorizationException ''Synthetic checks require admin privileges''), d, [])
                      else (None, put_check (move_check_to_agent c a u) d, [ck_agent_id c, ag_id a])))
           else (case update_check v d now cid u actor_is_admin of (e, d1) \<Rightarrow> (e, d1, []))))"

record modified = outcome +
  changed_ids :: "uuid list"

fun modify_each ::
    "vetting \<Rightarrow> instant \<Rightarrow> CheckUpdate \<Rightarrow> uuid option \<Rightarrow> py_error + Agent \<Rightarrow> bool \<Rightarrow> db \<Rightarrow> uuid list
      \<Rightarrow> db \<times> modified \<times> uuid list" where
  "modify_each v now u na target adm d [] =
     (d, \<lparr>success_count = 0, failure_count = 0, errors = [], changed_ids = []\<rparr>, [])"
| "modify_each v now u na target adm d (cid # cids) =
     (let (e, d1, touched) = modify_one v now u na target adm d cid;
          (d2, r, rest) = modify_each v now u na target adm d1 cids
      in (d2, (case e of
                 None \<Rightarrow> r\<lparr>success_count := success_count r + 1, changed_ids := cid # changed_ids r\<rparr>
               | Some x \<Rightarrow> r\<lparr>failure_count := failure_count r + 1, errors := x # errors r\<rparr>), touched @ rest))"

definition bulk_modify ::
    "vetting \<Rightarrow> db \<Rightarrow> instant \<Rightarrow> uuid list \<Rightarrow> CheckUpdate \<Rightarrow> uuid option \<Rightarrow> bool \<Rightarrow> db \<times> modified" where
  "bulk_modify v d now check_ids u new_agent_id actor_is_admin =
     (let target = (case new_agent_id of
                      None \<Rightarrow> Inl ValueError | Some aid \<Rightarrow> get_admitted_agent d aid);
          (d1, r, affected) = modify_each v now u new_agent_id target actor_is_admin d check_ids
      in (touch_agents affected now d1, r))"

text \<open>The background job of a bulk modification: alerts go on the checks it changed.\<close>

datatype alert_choice = Keep_alerts | Clear_alerts | Assign_alert uuid

definition bulk_check_modify ::
    "vetting \<Rightarrow> db \<Rightarrow> instant \<Rightarrow> uuid list \<Rightarrow> CheckUpdate \<Rightarrow> uuid option \<Rightarrow> alert_choice \<Rightarrow> bool \<Rightarrow> py_error + db" where
  "bulk_check_modify v d now check_ids u new_agent_id choice owner_is_admin =
     (if check_ids = [] then Inr d
      else let (d1, r) = bulk_modify v d now check_ids u new_agent_id owner_is_admin;
               changed = changed_ids r
           in if changed = [] then Inr d1
              else case choice of
                Keep_alerts \<Rightarrow> Inr d1
              | Clear_alerts \<Rightarrow> bulk_clear_from_checks d1 changed
              | Assign_alert aid \<Rightarrow> res_bind (bulk_assign_to_checks d1 aid changed) (\<lambda>(d2, _). Inr d2))"

section \<open>The wiring survives\<close>

lemma wired_touch [simp]: "wired (touch_agents aids now d) = wired d"
  by (simp add: wired_def touch_agents_def single_level_def get_check_def)

lemma checks_touch [simp]:
  "checks (touch_agents aids now d) = checks d"
  "get_check (touch_agents aids now d) cid = get_check d cid"
  by (simp_all add: touch_agents_def get_check_def)

lemma wired_checks:
  "wired d \<Longrightarrow> single_level (d\<lparr>checks := cs\<rparr>) \<Longrightarrow> distinct (map ck_id cs) \<Longrightarrow> wired (d\<lparr>checks := cs\<rparr>)"
  by (simp add: wired_def)

lemma wired_map_checks:
  assumes "wired d" "\<And>c. ck_id (g c) = ck_id c" "single_level (d\<lparr>checks := map g (checks d)\<rparr>)"
  shows "wired (d\<lparr>checks := map g (checks d)\<rparr>)"
proof -
  have "ck_id \<circ> g = ck_id" using assms(2) by auto
  then show ?thesis using assms by (intro wired_checks) (simp_all add: wired_def)
qed

text \<open>A row may be replaced by one whose parent is judged or unchanged.\<close>

lemma wired_put_check:
  assumes w: "wired d"
    and ok: "validate_dependency d (ck_depends_on c) (Some (ck_id c)) = Inr () \<or>
      (\<exists>c0. get_check d (ck_id c) = Some c0 \<and> ck_depends_on c = ck_depends_on c0)"
  shows "wired (put_check c d)"
proof -
  let ?g = "\<lambda>x. if ck_id x = ck_id c then c else x"
  have l: "distinct (map ck_id (checks d))" "single_level d" using w by (simp_all add: wired_def)
  from ok have "single_level (d\<lparr>checks := map ?g (checks d)\<rparr>)"
  proof
    assume "validate_dependency d (ck_depends_on c) (Some (ck_id c)) = Inr ()"
    then show ?thesis by (rule set_one_level [OF _ l]) simp_all
  next
    assume "\<exists>c0. get_check d (ck_id c) = Some c0 \<and> ck_depends_on c = ck_depends_on c0"
    then obtain c0 where c0: "get_check d (ck_id c) = Some c0" "ck_depends_on c = ck_depends_on c0" by blast
    then have "x = c0" if "x \<in> set (checks d)" "ck_id x = ck_id c" for x
      using get_check_own [OF l(1) that(1)] that(2) by simp
    with c0(2) show ?thesis by (intro keep_level l) auto
  qed
  then show ?thesis unfolding put_check_def by (intro wired_map_checks w) simp_all
qed

lemma wired_drop_checks: "wired d \<Longrightarrow> wired (drop_checks ids d)"
proof -
  assume w: "wired d"
  let ?g = "\<lambda>x :: Check. if ck_depends_on x \<in> Some ` set ids then x\<lparr>ck_depends_on := None\<rparr> else x"
  let ?cs = "map ?g (filter (\<lambda>x. ck_id x \<notin> set ids) (checks d))"
  have "ck_id \<circ> ?g = ck_id" by auto
  then have "distinct (map ck_id ?cs)" using w by (simp add: wired_def distinct_map_filter)
  then have "wired (d\<lparr>checks := ?cs\<rparr>)"
    using w by (intro wired_checks drop_level) (simp_all add: wired_def)
  moreover have "single_level (drop_checks ids d) = single_level (d\<lparr>checks := ?cs\<rparr>)"
    by (rule single_level_cong) (simp add: drop_checks_def)
  ultimately show ?thesis by (simp add: drop_checks_def wired_def distinct_map_filter)
qed

lemma create_check_cases:
  assumes "create_check v d now cid aid data skip adm = Inr d'"
  obtains agent where "get_admitted_agent d aid = Inr agent"
    "endpoint_ok v (Some (cc_target data))"
    "endpoint_ok v (text_of (dict_get (cc_config data) ''nameserver''))"
    "endpoint_ok v (text_of (dict_get (cc_config data) ''connection_string''))"
    "validate_dependency d (cc_depends_on data) None = Inr ()"
    "cc_check_type data = SYNTHETIC \<Longrightarrow> adm"
    "\<And>s. cc_check_type data = SYNTHETIC \<Longrightarrow> cc_script_code data = Some s \<Longrightarrow> s = [] \<or> script_ok v s"
    "d' = (let d1 = assign_global_alerts_to_check (d\<lparr>checks := checks d @ [new_check cid now agent data]\<rparr>) cid
           in if skip then d1 else touch_agents [ag_id agent] now d1)"
proof -
  from assms obtain agent where a: "get_admitted_agent d aid = Inr agent"
    by (auto simp: create_check_def res_bind_Inr_iff)
  note u = assms [unfolded create_check_def a res_bind_simps]
  show ?thesis
    by (rule that [OF a])
      (use u in \<open>auto simp: res_bind_Inr_iff validate_endpoints_ssrf_def require_admin_actor_def
        validate_script_def Let_def split: if_splits option.splits\<close>)
qed

lemma new_check_simps [simp]:
  "ck_id (new_check cid now agent data) = cid"
  "ck_depends_on (new_check cid now agent data) = cc_depends_on data"
  "ck_check_type (new_check cid now agent data) = cc_check_type data"
  "ck_target (new_check cid now agent data) = cc_target data"
  by (simp_all add: new_check_def Let_def)

lemma wired_create:
  assumes w: "wired d" and c: "create_check v d now cid aid data skip adm = Inr d'"
    and fresh: "cid \<notin> ck_id ` set (checks d)"
  shows "wired d'"
proof (rule create_check_cases [OF c])
  fix agent
  assume v: "validate_dependency d (cc_depends_on data) None = Inr ()"
    and d': "d' = (let d1 = assign_global_alerts_to_check (d\<lparr>checks := checks d @ [new_check cid now agent data]\<rparr>) cid
           in if skip then d1 else touch_agents [ag_id agent] now d1)"
  have "wired (d\<lparr>checks := checks d @ [new_check cid now agent data]\<rparr>)"
    using w v fresh by (intro wired_checks create_level) (auto simp: wired_def)
  then show ?thesis by (simp add: d' Let_def wired_assign_global)
qed

lemma wired_assign_each: "wired d \<Longrightarrow> wired (assign_each d cid aids)"
  by (induction d cid aids rule: assign_each.induct) (auto split: sum.split dest: wired_add_check)

lemma merged_config_keeps [simp]:
  "ck_id (merged_config u ty c) = ck_id c"
  "ck_depends_on (merged_config u ty c) = ck_depends_on c"
  "ck_check_type (merged_config u ty c) = ck_check_type c"
  "ck_target (merged_config u ty c) = ck_target c"
  "ck_script_code (merged_config u ty c) = ck_script_code c"
  by (simp_all add: merged_config_def Let_def)

lemma set_columns_sets [simp]:
  "ck_id (set_columns u s c) = ck_id c"
  "ck_depends_on (set_columns u s c) = set_field (cu_depends_on u) (ck_depends_on c)"
  "ck_check_type (set_columns u s c) = set_field (cu_check_type u) (ck_check_type c)"
  "ck_target (set_columns u s c) = set_field (cu_target u) (ck_target c)"
  "ck_check_config (set_columns u s c) = ck_check_config c"
  "ck_script_code (set_columns u s c) = s"
  by (simp_all add: set_columns_def)

text \<open>What an update leaves in the session: nothing new, or one row replaced.\<close>

lemma update_check_cases:
  assumes "update_check v d now cid u adm = (e, d')"
  obtains (nothing) "d' = d" "e \<noteq> None"
  | (refused) c ty x where "get_check d cid = Some c" "update_checked v d c u adm = Inr ()"
      "ty = set_field (cu_check_type u) (ck_check_type c)" "script_refused v u ty c = Some x" "e = Some x"
      "d' = put_check (merged_config u ty c) d"
  | (updated) c ty where "get_check d cid = Some c" "update_checked v d c u adm = Inr ()"
      "ty = set_field (cu_check_type u) (ck_check_type c)" "script_refused v u ty c = None" "e = None"
      "d' = touch_agents [ck_agent_id c] now (put_check (set_columns u (update_script u ty c) (merged_config u ty c)) d)"
proof (cases "get_check d cid")
  case None
  with assms have "d' = d" "e \<noteq> None" by (auto simp: update_check_def get_check_by_id_def)
  then show ?thesis by (rule nothing)
next
  case (Some c)
  let ?ty = "set_field (cu_check_type u) (ck_check_type c)"
  show ?thesis
  proof (cases "update_checked v d c u adm")
    case (Inl x)
    with assms Some have "d' = d" "e \<noteq> None" by (auto simp: update_check_def get_check_by_id_def)
    then show ?thesis by (rule nothing)
  next
    case (Inr y)
    then have ok: "update_checked v d c u adm = Inr ()" by simp
    show ?thesis
    proof (cases "script_refused v u ?ty c")
      case None
      with assms Some ok show ?thesis
        by (intro updated [OF Some ok refl None]) (auto simp: update_check_def get_check_by_id_def Let_def)
    next
      case (Some x)
      with assms \<open>get_check d cid = Some c\<close> ok show ?thesis
        by (intro refused [OF \<open>get_check d cid = Some c\<close> ok refl Some])
          (auto simp: update_check_def get_check_by_id_def Let_def)
    qed
  qed
qed

lemma update_checked_cases:
  assumes "update_checked v f c u adm = Inr ()"
  shows "endpoint_ok v (cu_target u)" "endpoint_ok v (text_of (dict_get (cu_config u) ''nameserver''))"
    "endpoint_ok v (text_of (dict_get (cu_config u) ''connection_string''))"
    "\<And>p. cu_depends_on u = Some p \<Longrightarrow> validate_dependency f p (Some (ck_id c)) = Inr ()"
    "ck_check_type c = SYNTHETIC \<or> set_field (cu_check_type u) (ck_check_type c) = SYNTHETIC \<Longrightarrow> adm"
  using assms
  by (auto simp: update_checked_def res_bind_Inr_iff validate_endpoints_ssrf_def require_admin_actor_def
      split: if_splits)

lemma wired_update:
  assumes w: "wired d" and u: "update_check v d now cid u adm = (e, d')"
  shows "wired d'"
  using u
proof (cases rule: update_check_cases)
  case (refused c ty x)
  then have "ck_id c = cid" by (auto dest: get_check_in)
  with refused show ?thesis by (auto intro!: wired_put_check w)
next
  case (updated c ty)
  then have c: "ck_id c = cid" by (auto dest: get_check_in)
  have "wired (put_check (set_columns u (update_script u ty c) (merged_config u ty c)) d)"
  proof (cases "cu_depends_on u")
    case None
    with updated(1) c show ?thesis by (intro wired_put_check w) (auto simp: set_field_def)
  next
    case (Some p)
    with update_checked_cases(4) [OF updated(2) Some] show ?thesis
      by (intro wired_put_check w) (auto simp: set_field_def)
  qed
  with updated(6) show ?thesis by simp
qed (use w in simp)

lemma get_check_by_id_Inr: "get_check_by_id d cid = Inr c \<longleftrightarrow> get_check d cid = Some c"
  by (simp add: get_check_by_id_def split: option.split)

text \<open>One check of a bulk modification: an update, or a move that replaces the row.\<close>

lemma modify_one_cases:
  assumes "modify_one v now u na target adm d cid = (e, d', touched)"
  obtains (nothing) "d' = d"
  | (moved) c a where "get_check d cid = Some c" "ck_check_type c = SYNTHETIC \<Longrightarrow> adm"
      "d' = put_check (move_check_to_agent c a u) d"
  | (updated) "update_check v d now cid u adm = (e, d')"
proof (cases "get_check d cid")
  case None
  with assms have "d' = d" by (auto simp: modify_one_def get_check_by_id_def)
  then show ?thesis by (rule nothing)
next
  case (Some c)
  show ?thesis
  proof (cases "na \<noteq> None \<and> na \<noteq> Some (ck_agent_id c)")
    case move: True
    show ?thesis
    proof (cases target)
      case (Inl x)
      with move Some assms have "d' = d" by (auto simp: modify_one_def get_check_by_id_def)
      then show ?thesis by (rule nothing)
    next
      case (Inr a)
      show ?thesis
      proof (cases "ck_check_type c = SYNTHETIC \<and> \<not> adm")
        case True
        with Inr move Some assms have "d' = d" by (auto simp: modify_one_def get_check_by_id_def)
        then show ?thesis by (rule nothing)
      next
        case False
        with Inr move Some assms have "d' = put_check (move_check_to_agent c a u) d"
          by (auto simp: modify_one_def get_check_by_id_def)
        with False show ?thesis by (intro moved [OF Some]) auto
      qed
    qed
  next
    case False
    with Some assms show ?thesis
      by (intro updated) (auto simp: modify_one_def get_check_by_id_def split: prod.splits)
  qed
qed

text \<open>What every single change keeps, a bulk modification keeps.\<close>

lemma modify_each_keeps:
  assumes one: "\<And>d cid e d' ts. P d \<Longrightarrow> modify_one v now u na target adm d cid = (e, d', ts) \<Longrightarrow> P d'"
    and "P d" "modify_each v now u na target adm d cids = (d', r, ts)"
  shows "P d'"
  using assms(2,3)
proof (induction cids arbitrary: d r ts)
  case (Cons cid cids)
  obtain e d1 t1 where m: "modify_one v now u na target adm d cid = (e, d1, t1)" by (rule prod_cases3)
  with Cons.prems show ?case
    by (auto simp: Let_def split: prod.splits intro: Cons.IH one)
qed simp

lemma bulk_modify_keeps:
  assumes one: "\<And>d target cid e d' ts. P d \<Longrightarrow> modify_one v now u na target adm d cid = (e, d', ts) \<Longrightarrow> P d'"
    and touch: "\<And>d aids. P d \<Longrightarrow> P (touch_agents aids now d)"
    and "P d" "bulk_modify v d now cids u na adm = (d', r)"
  shows "P d'"
proof -
  from assms(4) obtain target d1 ts where m: "modify_each v now u na target adm d cids = (d1, r, ts)"
    and d': "d' = touch_agents ts now d1"
    by (auto simp: bulk_modify_def Let_def split: prod.splits)
  from one assms(3) m have "P d1" by (rule modify_each_keeps [where P = P])
  then show ?thesis unfolding d' by (rule touch)
qed

lemma move_keeps [simp]:
  "ck_id (move_check_to_agent c a u) = ck_id c"
  "ck_depends_on (move_check_to_agent c a u) = ck_depends_on c"
  "ck_check_type (move_check_to_agent c a u) = ck_check_type c"
  "ck_target (move_check_to_agent c a u) = ck_target c"
  "ck_check_config (move_check_to_agent c a u) = ck_check_config c"
  "ck_script_code (move_check_to_agent c a u) = ck_script_code c"
  by (simp_all add: move_check_to_agent_def)

lemma wired_modify_one:
  assumes w: "wired d" and m: "modify_one v now u na target adm d cid = (e, d', ts)"
  shows "wired d'"
  using m
proof (cases rule: modify_one_cases)
  case (moved c a)
  then show ?thesis using get_check_in [OF moved(1)] by (auto intro!: wired_put_check w)
qed (use w in \<open>auto intro: wired_update\<close>)

lemma wired_bulk_modify: "wired d \<Longrightarrow> bulk_modify v d now cids u na adm = (d', r) \<Longrightarrow> wired d'"
  by (rule bulk_modify_keeps [where P = wired]) (auto intro: wired_modify_one)

text \<open>The background job: the alerts change after the checks.\<close>

lemma bulk_check_modify_cases:
  assumes "bulk_check_modify v d now cids u na choice adm = Inr d'"
  obtains (nothing) "d' = d"
  | (modified) d1 r where "bulk_modify v d now cids u na adm = (d1, r)"
      "d' = d1 \<or> bulk_clear_from_checks d1 (changed_ids r) = Inr d' \<or>
       (\<exists>aid n. bulk_assign_to_checks d1 aid (changed_ids r) = Inr (d', n))"
proof (cases "cids = []")
  case True
  with assms have "d' = d" by (simp add: bulk_check_modify_def)
  then show ?thesis by (rule nothing)
next
  case False
  obtain d1 r where m: "bulk_modify v d now cids u na adm = (d1, r)" by fastforce
  from assms False m show ?thesis
    by (intro modified [OF m])
      (auto simp: bulk_check_modify_def Let_def res_bind_Inr_iff split: if_splits alert_choice.splits)
qed

lemma wired_bulk_check_modify:
  assumes w: "wired d" and b: "bulk_check_modify v d now cids u na choice adm = Inr d'"
  shows "wired d'"
  using b
proof (cases rule: bulk_check_modify_cases)
  case (modified d1 r)
  then show ?thesis using wired_bulk_modify [OF w modified(1)]
    by (auto simp: bulk_assign_to_checks_def res_bind_Inr_iff dest: wired_bulk_clear wired_bulk_assign)
qed (use w in simp)

lemma bulk_set_enabled_cases:
  assumes "bulk_set_enabled d now ok cids b adm = (d', r)"
  obtains "d' = d"
  | ids where "ids = fst (bulk_permitted d cids adm)"
    "d' = touch_agents (agents_of d ids) now
       (d\<lparr>checks := map (\<lambda>c. if ck_id c \<in> set ids then c\<lparr>ck_enabled := b\<rparr> else c) (checks d)\<rparr>)"
  using assms by (auto simp: bulk_set_enabled_def split: prod.splits if_splits)

lemma bulk_delete_cases:
  assumes "bulk_delete d now ok cids adm = (d', r)"
  obtains "d' = d"
  | ids where "ids = fst (bulk_permitted d cids adm)" "d' = drop_checks ids (touch_agents (agents_of d ids) now d)"
  using assms by (auto simp: bulk_delete_def split: prod.splits if_splits)

lemma wired_bulk_set_enabled:
  assumes w: "wired d" and e: "bulk_set_enabled d now ok cids b adm = (d', r)"
  shows "wired d'"
proof (rule bulk_set_enabled_cases [OF e])
  fix ids
  assume d': "d' = touch_agents (agents_of d ids) now
       (d\<lparr>checks := map (\<lambda>c. if ck_id c \<in> set ids then c\<lparr>ck_enabled := b\<rparr> else c) (checks d)\<rparr>)"
  have "single_level (d\<lparr>checks := map (\<lambda>c. if ck_id c \<in> set ids then c\<lparr>ck_enabled := b\<rparr> else c) (checks d)\<rparr>)"
    using w by (intro keep_level) (auto simp: wired_def)
  then show ?thesis unfolding d' wired_touch by (intro wired_map_checks w) auto
qed (use w in simp)

lemma wired_bulk_delete:
  assumes w: "wired d" and "bulk_delete d now ok cids adm = (d', r)"
  shows "wired d'"
  by (rule bulk_delete_cases [OF assms(2)]) (auto simp: w wired_drop_checks)

section \<open>Configuration as a state machine\<close>

text \<open>A request or job that commits, by an actor who is an admin or not (\<open>adm\<close>). New ids are fresh.\<close>

inductive config_step ::
    "(AlertTriggerType \<Rightarrow> dict \<Rightarrow> dict option) \<Rightarrow> vetting \<Rightarrow> bool \<Rightarrow> db \<Rightarrow> db \<Rightarrow> bool"
  for fit v adm where
  cs_checks: "set_checks busy d aid cids adm = Inr (d', n) \<Longrightarrow> config_step fit v adm d d'"
| cs_providers: "set_providers d aid pids = Inr (d', n) \<Longrightarrow> config_step fit v adm d d'"
| cs_new_alert: "admin_create_alert busy fit d aid data adm = Inr d' \<Longrightarrow>
    aid \<notin> al_id ` set (alerts d) \<union> am_alert_id ` set (check_mappings d) \<union> an_alert_id ` set (notif_mappings d) \<Longrightarrow>
    config_step fit v adm d d'"
| cs_alert: "update_alert fit d aid au = Inr d' \<Longrightarrow> config_step fit v adm d d'"
| cs_no_alert: "delete_alert d now aid hard = Inr d' \<Longrightarrow> config_step fit v adm d d'"
| cs_snooze: "snooze_alert_check d now aid cid m = Inr (d', t) \<Longrightarrow> config_step fit v adm d d'"
| cs_unsnooze: "unsnooze_alert_check d aid cid = Inr d' \<Longrightarrow> config_step fit v adm d d'"
| cs_dependents: "set_dependents d pid cids adm = Inr (d', n) \<Longrightarrow> config_step fit v adm d d'"
| cs_create: "create_check_with_alerts v d now cid aid data aids adm = Inr d' \<Longrightarrow> cid \<notin> ck_id ` set (checks d) \<Longrightarrow>
    config_step fit v adm d d'"
| cs_clone: "clone_check_with_alerts v d now cid src aid u aids adm = Inr d' \<Longrightarrow> cid \<notin> ck_id ` set (checks d) \<Longrightarrow>
    config_step fit v adm d d'"
| cs_update: "update_check_with_alerts v d now cid u aids adm = Inr d' \<Longrightarrow> config_step fit v adm d d'"
| cs_delete: "delete_check d now cid adm = Inr d' \<Longrightarrow> config_step fit v adm d d'"
| cs_enable: "bulk_set_enabled d now ok cids b adm = (d', r) \<Longrightarrow> config_step fit v adm d d'"
| cs_bulk_delete: "bulk_delete d now ok cids adm = (d', r) \<Longrightarrow> config_step fit v adm d d'"
| cs_modify: "bulk_check_modify v d now cids u na choice adm = Inr d' \<Longrightarrow> config_step fit v adm d d'"

lemma wired_set_dependents:
  assumes w: "wired d" and s: "set_dependents d pid cids adm = Inr (d', n)"
  shows "wired d'"
proof -
  obtain a r where n: "n = (a, r)" by force
  have "\<exists>g. d' = d\<lparr>checks := map g (checks d)\<rparr>"
    by (rule set_dependents_cases [OF s [unfolded n]]) (auto simp: set_parent_def)
  then obtain g where g: "d' = d\<lparr>checks := map g (checks d)\<rparr>" ..
  from set_dependents_level [OF s [unfolded n]] w
  have "single_level d'" "distinct (map ck_id (checks d'))" by (simp_all add: wired_def)
  then show ?thesis using wired_checks [OF w, of "map g (checks d)"] by (simp add: g)
qed

lemma config_step_wired:
  assumes "config_step fit v adm d d'" "wired d"
  shows "wired d'"
  using assms(1)
proof cases
  case (cs_checks busy aid cids n)
  then show ?thesis
    using assms(2) wired_replace_checks [of d]
    by (auto simp: set_checks_def Let_def res_bind_Inr_iff) (metis fst_conv)
next
  case (cs_providers aid pids n)
  then show ?thesis
    using assms(2) by (auto simp: set_providers_def res_bind_Inr_iff intro: wired_replace_providers)
next
  case (cs_new_alert busy aid data)
  then show ?thesis
    using assms(2) by (auto simp: admin_create_alert_def create_alert_def res_bind_Inr_iff elim!: wired_add_alert [rotated])
next
  case (cs_create now cid aid data aids)
  then show ?thesis
    using assms(2) by (auto simp: create_check_with_alerts_def assign_alerts_def res_bind_Inr_iff
        intro: wired_assign_each wired_create)
next
  case (cs_clone now cid src aid u aids)
  then obtain data d1 where c: "create_check v d now cid aid data False adm = Inr d1"
    and s: "sync_check_alerts (copy_check_mappings d1 src cid) cid aids = Inr d'"
    by (auto simp: clone_check_with_alerts_def clone_check_def res_bind_Inr_iff)
  from wired_create [OF assms(2) c cs_clone(2)] s show ?thesis
    by (auto intro: wired_sync wired_copy_check_mappings)
next
  case (cs_update now cid u aids)
  then show ?thesis
    using assms(2) by (auto simp: update_check_with_alerts_def res_bind_Inr_iff committed_def
        split: prod.splits option.splits intro: wired_sync wired_update)
next
  case (cs_delete now cid)
  then show ?thesis
    using assms(2) by (auto simp: delete_check_def res_bind_Inr_iff wired_drop_checks)
qed (use assms(2) in \<open>auto simp: snooze_alert_check_def unsnooze_alert_check_def split: option.splits
    intro!: wired_update_mapping
    intro: wired_update_alert wired_delete_alert wired_set_dependents wired_bulk_set_enabled wired_bulk_delete
      wired_bulk_check_modify\<close>)

text \<open>A run of requests and jobs by whoever.\<close>

abbreviation any_step :: "(AlertTriggerType \<Rightarrow> dict \<Rightarrow> dict option) \<Rightarrow> vetting \<Rightarrow> db \<Rightarrow> db \<Rightarrow> bool" where
  "any_step fit v d d' \<equiv> \<exists>adm. config_step fit v adm d d'"

interpretation config: keeper wired "any_step fit v" for fit v
  by unfold_locales (auto intro: config_step_wired)

section \<open>What is stored is vetted\<close>

definition held_config :: "Check \<Rightarrow> dict" where
  "held_config c = (case ck_check_config c of None \<Rightarrow> [] | Some config \<Rightarrow> config)"

text \<open>No check keeps another type's settings; every address it connects to passed the address
  check; and only a synthetic check keeps a script, one that passed the script check.\<close>

definition vetted :: "vetting \<Rightarrow> Check \<Rightarrow> bool" where
  "vetted v c \<longleftrightarrow>
     (\<forall>k\<in>fst ` set (held_config c). k \<in> set ALL_CONFIG_FIELDS \<longrightarrow> k \<in> set (type_fields (ck_check_type c))) \<and>
     endpoint_ok v (Some (ck_target c)) \<and>
     endpoint_ok v (text_of (dict_get (held_config c) ''nameserver'')) \<and>
     endpoint_ok v (text_of (dict_get (held_config c) ''connection_string'')) \<and>
     (\<forall>s. ck_script_code c = Some s \<longrightarrow> ck_check_type c = SYNTHETIC \<and> (s = [] \<or> script_ok v s))"

definition all_vetted :: "vetting \<Rightarrow> 'a fleet_scheme \<Rightarrow> bool" where
  "all_vetted v f \<longleftrightarrow> (\<forall>c\<in>set (checks f). vetted v c)"

lemma vetted_other [simp]:
  "vetted v (c\<lparr>ck_depends_on := p\<rparr>) = vetted v c" "vetted v (c\<lparr>ck_enabled := b\<rparr>) = vetted v c"
  by (simp_all add: vetted_def held_config_def)

lemma vetted_move [simp]: "vetted v (move_check_to_agent c a u) = vetted v c"
  by (simp add: vetted_def held_config_def)

lemma all_vetted_touch [simp]: "all_vetted v (touch_agents aids now f) = all_vetted v f"
  by (simp add: all_vetted_def)

lemma all_vetted_cong: "checks f = checks g \<Longrightarrow> all_vetted v f = all_vetted v g"
  by (simp add: all_vetted_def)

lemma all_vetted_put: "all_vetted v f \<Longrightarrow> vetted v c \<Longrightarrow> all_vetted v (put_check c f)"
  by (auto simp: all_vetted_def put_check_def)

lemma type_fields_synthetic [simp]: "type_fields SYNTHETIC = []"
  by (simp add: type_fields_def TYPE_FIELDS_def SYNTHETIC_def)

lemma dict_update_get:
  "dict_get (dict_update d new) k = Some x \<Longrightarrow> dict_get d k = Some x \<or> (k, x) \<in> set new"
proof (induction new arbitrary: d)
  case (Cons kv new)
  then show ?case
    by (cases kv) (force simp: dict_update_def split: if_splits)
qed (simp add: dict_update_def)

lemma dict_update_keys: "fst ` set (dict_update d new) = fst ` set d \<union> fst ` set new"
proof (induction new arbitrary: d)
  case (Cons kv new)
  obtain k v where kv: "kv = (k, v)" by (rule prod.exhaust)
  have "fst ` set (dict_update d (kv # new)) = fst ` set (dict_update (dict_set k v d) new)"
    by (simp add: dict_update_def kv)
  also have "\<dots> = fst ` set (dict_set k v d) \<union> fst ` set new" by (rule Cons.IH)
  finally show ?case by (simp add: dom_update kv)
qed (simp add: dict_update_def)

lemma keep_type_fields_get:
  "dict_get (keep_type_fields config ty) k = Some x \<Longrightarrow> dict_get config k = Some x"
  unfolding keep_type_fields_def
proof (induction config)
  case (Cons kv config)
  then show ?case by (cases kv) (auto split: if_splits dest: map_of_SomeD)
qed simp

lemma taken_updates:
  "(k, x) \<in> set (fst (take_config_updates upd ty)) \<Longrightarrow> k \<in> set (type_fields ty) \<and> dict_get upd k = Some x"
  by (auto simp: take_config_updates_def split: option.splits if_splits)

lemma packed_fields:
  assumes "(k, x) \<in> set (pack_config data ty)"
  shows "k \<in> set (type_fields ty) \<and> dict_get data k = Some x"
  using assms by (auto simp: pack_config_def dict_get_or_def is_set_def split: option.splits if_splits)

lemma endpoint_none [simp]: "endpoint_ok v None" "text_of None = None"
  by (simp_all add: endpoint_ok_def text_of_def)

text \<open>Settings drawn from vetted ones and vetted updates are vetted.\<close>

lemma endpoint_drawn:
  assumes "endpoint_ok v (text_of (dict_get a k))" "endpoint_ok v (text_of (dict_get b k))"
    and "\<And>x. dict_get d k = Some x \<Longrightarrow> dict_get a k = Some x \<or> dict_get b k = Some x"
  shows "endpoint_ok v (text_of (dict_get d k))"
proof (cases "dict_get d k")
  case (Some x)
  from assms(3) [OF this] have "dict_get a k = dict_get d k \<or> dict_get b k = dict_get d k"
    using Some by simp
  then show ?thesis using assms(1,2) by metis
qed simp

lemma vetted_new:
  assumes "endpoint_ok v (Some (cc_target data))"
    "endpoint_ok v (text_of (dict_get (cc_config data) ''nameserver''))"
    "endpoint_ok v (text_of (dict_get (cc_config data) ''connection_string''))"
    "\<And>s. cc_check_type data = SYNTHETIC \<Longrightarrow> cc_script_code data = Some s \<Longrightarrow> s = [] \<or> script_ok v s"
  shows "vetted v (new_check cid now agent data)"
proof -
  have h: "held_config (new_check cid now agent data) = pack_config (cc_config data) (cc_check_type data)"
    by (simp add: held_config_def new_check_def Let_def)
  have "endpoint_ok v (text_of (dict_get (pack_config (cc_config data) (cc_check_type data)) k))"
    if "endpoint_ok v (text_of (dict_get (cc_config data) k))" for k
    using that by (rule endpoint_drawn [where b = "cc_config data"]) (auto dest!: map_of_SomeD packed_fields intro: that)
  with assms show ?thesis
    unfolding vetted_def h by (auto simp: new_check_def Let_def dest: packed_fields)
qed

lemma merged_held:
  "held_config (merged_config u ty c) =
     dict_update (if ty \<noteq> ck_check_type c then keep_type_fields (held_config c) ty else held_config c)
       (fst (take_config_updates (cu_config u) ty))"
  by (simp add: merged_config_def held_config_def Let_def dict_update_def)

text \<open>The merged settings fit the new type and hold only vetted addresses.\<close>

lemma merged_vetted:
  fixes ty :: string
  assumes "vetted v c" "endpoint_ok v (text_of (dict_get (cu_config u) ''nameserver''))"
    "endpoint_ok v (text_of (dict_get (cu_config u) ''connection_string''))"
  defines "h \<equiv> held_config (merged_config u ty c)"
  shows "\<forall>k\<in>fst ` set h. k \<in> set ALL_CONFIG_FIELDS \<longrightarrow> k \<in> set (type_fields ty)"
    "endpoint_ok v (text_of (dict_get h ''nameserver''))" "endpoint_ok v (text_of (dict_get h ''connection_string''))"
proof -
  let ?base = "if ty \<noteq> ck_check_type c then keep_type_fields (held_config c) ty else held_config c"
  have "\<forall>k\<in>fst ` set ?base. k \<in> set ALL_CONFIG_FIELDS \<longrightarrow> k \<in> set (type_fields ty)"
    using assms(1) by (auto simp: vetted_def keep_type_fields_def)
  moreover have "fst ` set (fst (take_config_updates (cu_config u) ty)) \<subseteq> set (type_fields ty)"
    by (auto dest: taken_updates)
  ultimately show "\<forall>k\<in>fst ` set h. k \<in> set ALL_CONFIG_FIELDS \<longrightarrow> k \<in> set (type_fields ty)"
    unfolding h_def merged_held dict_update_keys by blast
  have drawn: "dict_get (held_config c) k = Some x \<or> dict_get (cu_config u) k = Some x"
    if "dict_get h k = Some x" for k x
    using dict_update_get [OF that [unfolded h_def merged_held]]
    by (auto dest: taken_updates keep_type_fields_get split: if_splits)
  show "endpoint_ok v (text_of (dict_get h ''nameserver''))" "endpoint_ok v (text_of (dict_get h ''connection_string''))"
    using assms(1-3) drawn by (auto simp: vetted_def intro: endpoint_drawn)
qed

lemma vetted_updated:
  assumes c: "vetted v c" and u: "update_checked v d c u adm = Inr ()"
    and ty: "ty = set_field (cu_check_type u) (ck_check_type c)" and s: "script_refused v u ty c = None"
  shows "vetted v (set_columns u (update_script u ty c) (merged_config u ty c))"
proof -
  note ok = update_checked_cases(1-3) [OF u]
  note m = merged_vetted [OF c ok(2,3), of ty]
  have "endpoint_ok v (Some (set_field (cu_target u) (ck_target c)))"
    using ok(1) c by (cases "cu_target u") (simp_all add: set_field_def vetted_def)
  moreover have "update_script u ty c = Some x \<Longrightarrow> ty = SYNTHETIC \<and> (x = [] \<or> script_ok v x)" for x
    using s c by (auto simp: script_refused_def update_script_def validate_script_def set_field_def vetted_def
        split: if_splits option.splits)
  ultimately show ?thesis
    using m by (simp add: vetted_def held_config_def ty [symmetric])
qed

lemma vetted_refused:
  assumes c: "vetted v c" and u: "update_checked v d c u adm = Inr ()" and s: "script_refused v u ty c = Some x"
  shows "vetted v (merged_config u ty c)"
proof -
  from s have "ty = SYNTHETIC" by (auto simp: script_refused_def split: option.splits if_splits)
  with merged_vetted [OF c update_checked_cases(2,3) [OF u], of ty] c show ?thesis
    by (auto simp: vetted_def)
qed

section \<open>Who may change what\<close>

text \<open>The contract of check administration, as changes of the table of checks: a vetted row is added,
  rows are replaced by ones as well vetted, rows are dropped and their dependents freed; and a synthetic
  row is added, replaced or dropped by an admin alone.\<close>

abbreviation synthetic_row :: "Check \<Rightarrow> bool" where
  "synthetic_row c \<equiv> ck_check_type c = SYNTHETIC"

definition drop_rows :: "uuid set \<Rightarrow> Check list \<Rightarrow> Check list" where
  "drop_rows D cs = map (\<lambda>x. if ck_depends_on x \<in> Some ` D then x\<lparr>ck_depends_on := None\<rparr> else x)
     (filter (\<lambda>x. ck_id x \<notin> D) cs)"

inductive row_change :: "vetting \<Rightarrow> bool \<Rightarrow> Check list \<Rightarrow> Check list \<Rightarrow> bool" for v adm where
  rc_add: "vetted v c \<Longrightarrow> (synthetic_row c \<longrightarrow> adm) \<Longrightarrow> ck_id c \<notin> ck_id ` set cs \<Longrightarrow> row_change v adm cs (cs @ [c])"
| rc_map: "\<forall>c\<in>set cs. ck_id (g c) = ck_id c \<and> (vetted v c \<longrightarrow> vetted v (g c)) \<and>
      (g c \<noteq> c \<and> (synthetic_row c \<or> synthetic_row (g c)) \<longrightarrow> adm) \<Longrightarrow> row_change v adm cs (map g cs)"
| rc_drop: "\<forall>c\<in>set cs. ck_id c \<in> D \<and> synthetic_row c \<longrightarrow> adm \<Longrightarrow> row_change v adm cs (drop_rows D cs)"

abbreviation row_changes :: "vetting \<Rightarrow> bool \<Rightarrow> Check list \<Rightarrow> Check list \<Rightarrow> bool" where
  "row_changes v adm \<equiv> (row_change v adm)\<^sup>*\<^sup>*"

lemma row_change_vetted:
  "row_change v adm cs cs' \<Longrightarrow> \<forall>c\<in>set cs. vetted v c \<Longrightarrow> \<forall>c\<in>set cs'. vetted v c"
  by (induction rule: row_change.induct) (auto simp: drop_rows_def)

interpretation vet: keeper "\<lambda>cs. \<forall>c\<in>set cs. vetted v c" "row_change v adm" for v adm
  by unfold_locales (rule row_change_vetted)

text \<open>Without an admin a synthetic row stays as it is, but for the parent it loses when that parent is
  deleted.\<close>

lemma row_change_others:
  assumes "row_change v False cs cs'" "c \<in> set cs" "synthetic_row c"
  shows "\<exists>c'\<in>set cs'. c' = c \<or> c' = c\<lparr>ck_depends_on := None\<rparr>"
  using assms
proof cases
  case (rc_drop D)
  let ?g = "\<lambda>x :: Check. if ck_depends_on x \<in> Some ` D then x\<lparr>ck_depends_on := None\<rparr> else x"
  have "ck_id c \<notin> D" using rc_drop(2) assms(2,3) by blast
  then have "?g c \<in> set cs'" unfolding rc_drop(1) drop_rows_def using assms(2) by simp
  then show ?thesis by (auto split: if_splits)
next
  case (rc_map g)
  then have "g c = c" using assms(2,3) by blast
  then show ?thesis using rc_map(1) assms(2) by force
qed (use assms in auto)

lemma row_put:
  assumes "get_check d cid = Some c" "distinct (map ck_id (checks d))" "ck_id c' = cid"
    and "vetted v c \<longrightarrow> vetted v c'" "synthetic_row c \<or> synthetic_row c' \<longrightarrow> adm"
  shows "row_changes v adm (checks d) (checks (put_check c' d))"
proof -
  have "x = c" if "x \<in> set (checks d)" "ck_id x = cid" for x
    using get_check_own [OF assms(2) that(1)] that(2) assms(1) by simp
  then have "row_change v adm (checks d) (map (\<lambda>x. if ck_id x = ck_id c' then c' else x) (checks d))"
    using assms(3-5) by (intro rc_map) auto
  then show ?thesis by (simp add: put_check_def)
qed

lemma row_update:
  assumes u: "update_check v d now cid u adm = (e, d')" and d: "distinct (map ck_id (checks d))"
  shows "row_changes v adm (checks d) (checks d')"
  using u
proof (cases rule: update_check_cases)
  case (refused c ty x)
  then have "ty = SYNTHETIC" by (auto simp: script_refused_def split: option.splits if_splits)
  with refused show ?thesis
    using get_check_in [OF refused(1)] vetted_refused [OF _ refused(2,4)] update_checked_cases(5) [OF refused(2)]
    by (auto intro!: row_put d)
next
  case (updated c ty)
  then show ?thesis
    using get_check_in [OF updated(1)] vetted_updated [OF _ updated(2,3,4)] update_checked_cases(5) [OF updated(2)]
    by (auto intro!: row_put d)
qed simp

lemma put_check_ids: "map ck_id (checks (put_check c d)) = map ck_id (checks d)"
  by (simp add: put_check_def)

lemma modify_one_ids:
  assumes "modify_one v now u na target adm d cid = (e, d', ts)"
  shows "map ck_id (checks d') = map ck_id (checks d)"
  using assms
proof (cases rule: modify_one_cases)
  case updated
  then show ?thesis by (cases rule: update_check_cases) (simp_all add: put_check_ids)
qed (simp_all add: put_check_ids)

lemma row_modify_one:
  assumes m: "modify_one v now u na target adm d cid = (e, d', ts)" and d: "distinct (map ck_id (checks d))"
  shows "row_changes v adm (checks d) (checks d')"
  using m
proof (cases rule: modify_one_cases)
  case (moved c a)
  then show ?thesis using get_check_in [OF moved(1)] by (auto intro!: row_put d)
qed (auto intro: row_update d)

lemma row_bulk_modify:
  assumes "bulk_modify v d now cids u na adm = (d', r)" and "distinct (map ck_id (checks d))"
  shows "row_changes v adm (checks d) (checks d')"
proof -
  let ?P = "\<lambda>x. distinct (map ck_id (checks x)) \<and> row_changes v adm (checks d) (checks x)"
  have "?P d'"
  proof (rule bulk_modify_keeps [where P = ?P, OF _ _ _ assms(1)])
    fix d1 target cid e d2 ts
    assume "?P d1" "modify_one v now u na target adm d1 cid = (e, d2, ts)"
    then show "?P d2" using row_modify_one [of v now u na target adm d1 cid e d2 ts] modify_one_ids
      by (metis (no_types, lifting) rtranclp_trans)
  qed (use assms(2) in auto)
  then show ?thesis ..
qed

text \<open>Operations on alerts leave the checks alone.\<close>

lemma checks_add_check: "add_check d aid cid = Inr d' \<Longrightarrow> checks d' = checks d"
  by (auto simp: add_check_def split: option.splits if_splits)

lemma checks_add_checks: "add_checks d aids cid = Inr d' \<Longrightarrow> checks d' = checks d"
  by (induction d aids cid rule: add_checks.induct) (auto simp: res_bind_Inr_iff dest: checks_add_check)

lemma checks_remove: "checks (foldl (\<lambda>x aid. remove_check x aid cid) d aids) = checks d"
  by (induction aids arbitrary: d) (simp_all add: remove_check_def)

lemma checks_sync: "sync_check_alerts d cid aids = Inr d' \<Longrightarrow> checks d' = checks d"
  by (auto simp: sync_check_alerts_def Let_def checks_remove dest: checks_add_checks)

lemma checks_bulk_assign: "bulk_assign r d aid cids = Inr d' \<Longrightarrow> checks d' = checks d"
  by (induction r d aid cids rule: bulk_assign.induct)
    (auto simp: Let_def res_bind_Inr_iff split: if_splits dest: checks_sync)

lemma checks_bulk_clear: "bulk_clear_from_checks d cids = Inr d' \<Longrightarrow> checks d' = checks d"
  by (induction d cids rule: bulk_clear_from_checks.induct) (auto simp: res_bind_Inr_iff dest: checks_sync)

lemma checks_copy: "checks (copy_check_mappings d src tgt) = checks d"
proof -
  have "checks (foldl (copy_mapping held tgt) d ms) = checks d" for held ms
    by (induction ms arbitrary: d) (simp_all add: copy_mapping_def update_mapping_def Let_def)
  then show ?thesis by (simp add: copy_check_mappings_def Let_def)
qed

lemma checks_assign_each: "checks (assign_each d cid aids) = checks d"
  by (induction d cid aids rule: assign_each.induct) (auto split: sum.split dest: checks_add_check)

lemma checks_set_checks: "set_checks busy d aid cids adm = Inr (d', n) \<Longrightarrow> checks d' = checks d"
  by (auto simp: set_checks_def replace_check_mappings_def Let_def res_bind_Inr_iff)

lemma checks_set_providers: "set_providers d aid pids = Inr (d', n) \<Longrightarrow> checks d' = checks d"
  by (auto simp: set_providers_def replace_provider_mappings_def Let_def res_bind_Inr_iff split: if_splits)

lemma checks_new_alert: "admin_create_alert busy fit d aid data adm = Inr d' \<Longrightarrow> checks d' = checks d"
  by (auto simp: admin_create_alert_def create_alert_def add_alert_def res_bind_Inr_iff split: if_splits)

lemma checks_update_alert: "update_alert fit d aid u = Inr d' \<Longrightarrow> checks d' = checks d"
  by (auto simp: update_alert_def put_alert_def Let_def res_bind_Inr_iff split: if_splits)

lemma checks_delete_alert: "delete_alert d now aid hard = Inr d' \<Longrightarrow> checks d' = checks d"
  by (auto simp: delete_alert_def put_alert_def res_bind_Inr_iff)

lemma checks_snooze:
  "snooze_alert_check d now aid cid m = Inr (d', t) \<Longrightarrow> checks d' = checks d"
  "unsnooze_alert_check d aid cid = Inr d' \<Longrightarrow> checks d' = checks d"
  by (auto simp: snooze_alert_check_def unsnooze_alert_check_def update_mapping_def split: option.splits)

lemmas same_checks = checks_set_checks checks_set_providers checks_new_alert checks_update_alert
  checks_delete_alert checks_snooze

lemma row_create:
  assumes c: "create_check v d now cid aid data skip adm = Inr d'" and fresh: "cid \<notin> ck_id ` set (checks d)"
  shows "row_changes v adm (checks d) (checks d')"
proof (rule create_check_cases [OF c])
  fix agent
  assume ok: "endpoint_ok v (Some (cc_target data))"
    "endpoint_ok v (text_of (dict_get (cc_config data) ''nameserver''))"
    "endpoint_ok v (text_of (dict_get (cc_config data) ''connection_string''))"
    "cc_check_type data = SYNTHETIC \<Longrightarrow> adm"
    "\<And>s. cc_check_type data = SYNTHETIC \<Longrightarrow> cc_script_code data = Some s \<Longrightarrow> s = [] \<or> script_ok v s"
    and d': "d' = (let d1 = assign_global_alerts_to_check (d\<lparr>checks := checks d @ [new_check cid now agent data]\<rparr>) cid
           in if skip then d1 else touch_agents [ag_id agent] now d1)"
  have "checks d' = checks d @ [new_check cid now agent data]"
    by (simp add: d' Let_def assign_global_alerts_to_check_def)
  moreover have "row_change v adm (checks d) (checks d @ [new_check cid now agent data])"
    using ok fresh by (intro rc_add vetted_new) auto
  ultimately show ?thesis by simp
qed

lemma row_set_dependents:
  assumes s: "set_dependents d pid cids adm = Inr (d', n)" and d: "distinct (map ck_id (checks d))"
  shows "row_changes v adm (checks d) (checks d')"
proof -
  obtain a r where n: "n = (a, r)" by force
  show ?thesis
  proof (rule set_dependents_cases [OF s [unfolded n]])
    fix to_add to_remove
    assume syn: "list_ex (is_synthetic d) (to_add @ to_remove) \<longrightarrow> adm"
      and d': "d' = set_parent pid to_add to_remove d"
    have "is_synthetic d (ck_id c)" if "c \<in> set (checks d)" "synthetic_row c" for c
      using get_check_own [OF d that(1)] that(2) by (simp add: is_synthetic_def)
    with syn have "\<forall>c\<in>set (checks d). synthetic_row c \<and> ck_id c \<in> set to_add \<union> set to_remove \<longrightarrow> adm"
      by (auto simp: list_ex_iff)
    then have "row_change v adm (checks d) (checks d')"
      unfolding d' set_parent_def by (auto intro!: rc_map split: if_splits)
    then show ?thesis by simp
  qed
qed

lemma drop_checks_rows: "checks (drop_checks ids d) = drop_rows (set ids) (checks d)"
  by (simp add: drop_checks_def drop_rows_def)

lemma permitted_not_synthetic:
  assumes "distinct (map ck_id (checks d))" "c \<in> set (checks d)" "synthetic_row c"
    and "ck_id c \<in> set (fst (bulk_permitted d cids adm))"
  shows adm
  using assms(4) get_check_own [OF assms(1,2)] assms(3)
  by (auto simp: bulk_permitted_def is_synthetic_def split: if_splits)

lemma row_delete:
  assumes "delete_check d now cid adm = Inr d'" and d: "distinct (map ck_id (checks d))"
  shows "row_changes v adm (checks d) (checks d')"
proof -
  from assms(1) obtain c where c: "get_check d cid = Some c" "synthetic_row c \<longrightarrow> adm"
    and d': "checks d' = drop_rows {cid} (checks d)"
    by (auto simp: delete_check_def res_bind_Inr_iff get_check_by_id_Inr drop_checks_rows require_admin_actor_def
        split: if_splits)
  then have "row_change v adm (checks d) (drop_rows {cid} (checks d))"
    using get_check_own [OF d] by (intro rc_drop) auto
  with d' show ?thesis by simp
qed

lemma row_bulk:
  assumes d: "distinct (map ck_id (checks d))"
  shows "bulk_set_enabled d now ok cids b adm = (d', r) \<Longrightarrow> row_changes v adm (checks d) (checks d')"
    and "bulk_delete d now ok cids adm = (d', r) \<Longrightarrow> row_changes v adm (checks d) (checks d')"
proof -
  assume "bulk_set_enabled d now ok cids b adm = (d', r)"
  then show "row_changes v adm (checks d) (checks d')"
  proof (cases rule: bulk_set_enabled_cases)
    case (2 ids)
    have "row_change v adm (checks d) (map (\<lambda>c. if ck_id c \<in> set ids then c\<lparr>ck_enabled := b\<rparr> else c) (checks d))"
      by (rule rc_map) (auto simp: 2(1) dest: permitted_not_synthetic [OF d])
    then show ?thesis by (simp add: 2(2))
  qed simp
next
  assume "bulk_delete d now ok cids adm = (d', r)"
  then show "row_changes v adm (checks d) (checks d')"
  proof (cases rule: bulk_delete_cases)
    case (2 ids)
    have "row_change v adm (checks d) (drop_rows (set ids) (checks d))"
      by (rule rc_drop) (auto simp: 2(1) dest: permitted_not_synthetic [OF d])
    then show ?thesis by (simp add: 2(2) drop_checks_rows)
  qed simp
qed

lemma config_step_rows:
  assumes s: "config_step fit v adm d d'" and d: "distinct (map ck_id (checks d))"
  shows "row_changes v adm (checks d) (checks d')"
  using s
proof cases
  case (cs_create now cid aid data aids)
  then obtain d1 where "create_check v d now cid aid data False adm = Inr d1" "checks d' = checks d1"
    by (auto simp: create_check_with_alerts_def assign_alerts_def res_bind_Inr_iff checks_assign_each)
  then show ?thesis using row_create cs_create(2) by metis
next
  case (cs_clone now cid src aid u aids)
  then obtain data d1 where "create_check v d now cid aid data False adm = Inr d1" "checks d' = checks d1"
    by (auto simp: clone_check_with_alerts_def clone_check_def res_bind_Inr_iff checks_copy dest: checks_sync)
  then show ?thesis using row_create cs_clone(2) by metis
next
  case (cs_update now cid u aids)
  then obtain d1 where "update_check v d now cid u adm = (None, d1)" "checks d' = checks d1"
    by (auto simp: update_check_with_alerts_def res_bind_Inr_iff committed_def
        split: prod.splits option.splits dest: checks_sync)
  then show ?thesis using row_update d by metis
next
  case (cs_modify now cids u na choice)
  from this show ?thesis
  proof (cases rule: bulk_check_modify_cases)
    case (modified d1 r)
    then have "checks d' = checks d1"
      by (auto simp: bulk_assign_to_checks_def res_bind_Inr_iff dest: checks_bulk_clear checks_bulk_assign)
    then show ?thesis using row_bulk_modify [OF modified(1) d] by simp
  qed simp
qed (use d in \<open>auto simp: same_checks intro: row_set_dependents row_delete row_bulk\<close>)

text \<open>Both invariants hold together along a run.\<close>

lemma step_keeps_vetted:
  assumes "config_step fit v adm d d'" "wired d" "all_vetted v d"
  shows "all_vetted v d'"
  using vet.run_keeps [OF config_step_rows [OF assms(1)]] assms(2,3) by (auto simp: wired_def all_vetted_def)

interpretation sound: keeper "\<lambda>d. wired d \<and> all_vetted v d" "any_step fit v" for fit v
  by unfold_locales (auto intro: config_step_wired step_keeps_vetted)

lemma row_changes_others:
  assumes "row_changes v False cs cs'" "c \<in> set cs" "synthetic_row c"
  shows "\<exists>c'\<in>set cs'. c' = c \<or> c' = c\<lparr>ck_depends_on := None\<rparr>"
  using assms
proof (induction rule: rtranclp_induct)
  case (step cs1 cs2)
  then obtain c1 where "c1 \<in> set cs1" "c1 = c \<or> c1 = c\<lparr>ck_depends_on := None\<rparr>" "synthetic_row c1" by auto
  with row_change_others [OF step.hyps(2)] show ?case by force
qed auto

lemma run_others:
  assumes "(config_step fit v False)\<^sup>*\<^sup>* d d'" "wired d" "c \<in> set (checks d)" "synthetic_row c"
  shows "wired d' \<and> (\<exists>c'\<in>set (checks d'). c' = c \<or> c' = c\<lparr>ck_depends_on := None\<rparr>)"
  using assms
proof (induction rule: rtranclp_induct)
  case (step d1 d2)
  then obtain c1 where c1: "wired d1" "c1 \<in> set (checks d1)" "c1 = c \<or> c1 = c\<lparr>ck_depends_on := None\<rparr>" "synthetic_row c1"
    by auto
  from config_step_rows [OF step.hyps(2)] c1(1) have "row_changes v False (checks d1) (checks d2)"
    by (simp add: wired_def)
  from row_changes_others [OF this c1(2,4)] c1(3) config_step_wired [OF step.hyps(2) c1(1)]
  show ?case by force
qed auto

section \<open>Properties\<close>

text \<open>C24: Whatever requests and jobs change the configuration, in any order and by any actors: check ids
  stay unique, dependencies stay one level deep with every parent present, and no alert is mapped to
  a check or a provider twice.\<close>

theorem config_keeps_wired:
  assumes "(any_step fit v)\<^sup>*\<^sup>* d d'" "wired d"
  shows "wired d'"
  by (rule config.run_keeps [OF assms])

text \<open>C23: Along any such run what is stored is vetted: every address a check connects to passed the
  address check, no check keeps settings of another type (so no connection string survives a change of
  type), and only synthetic checks keep scripts, all of which passed the script check.\<close>

theorem config_keeps_vetted:
  assumes "(any_step fit v)\<^sup>*\<^sup>* d d'" "wired d" "all_vetted v d"
  shows "all_vetted v d'"
  using sound.run_keeps [OF assms(1)] assms(2,3) by simp

text \<open>C25: Every request or job, seen on the table of checks, is a sequence of the changes the contract
  of check administration allows.\<close>

theorem config_refines_rows:
  assumes "config_step fit v adm d d'" "wired d"
  shows "row_changes v adm (checks d) (checks d')"
  using config_step_rows [OF assms(1)] assms(2) by (simp add: wired_def)

text \<open>C22: Actors who are not admins leave a synthetic check as it is, however many requests they make:
  it is still there, with the same type, script, target, settings and agent; at most it has lost its
  parent.\<close>

theorem synthetic_is_admins:
  assumes "(config_step fit v False)\<^sup>*\<^sup>* d d'" "wired d" "get_check d cid = Some c" "synthetic_row c"
  shows "\<exists>c'. get_check d' cid = Some c' \<and> c' \<in> {c, c\<lparr>ck_depends_on := None\<rparr>}"
proof -
  note c = get_check_in [OF assms(3)]
  from run_others [OF assms(1,2) conjunct1 [OF c] assms(4)] obtain c' where "wired d'" "c' \<in> set (checks d')"
    "c' \<in> {c, c\<lparr>ck_depends_on := None\<rparr>}" by auto
  moreover from this(3) have "ck_id c' = cid" using c by auto
  ultimately show ?thesis using get_check_own [of d' c'] by (auto simp: wired_def)
qed

text \<open>That loss is real, and the code's own rule forbids it: detaching a synthetic check from its
  parent by the dependents list is refused to a non-admin, but deleting the parent, when that is not
  synthetic, detaches it all the same.\<close>

theorem parent_deletion_detaches_synthetic:
  assumes w: "wired d" and p: "get_check d pid = Some p" "\<not> synthetic_row p"
    and c: "get_check d cid = Some c" "synthetic_row c" "ck_depends_on c = Some pid"
  shows "(\<exists>d'. delete_check d now pid False = Inr d' \<and> get_check d' cid = Some (c\<lparr>ck_depends_on := None\<rparr>)) \<and>
    set_dependents d pid [] False = Inl (AuthorizationException ''Synthetic checks require admin privileges'')"
proof -
  let ?d = "touch_agents [ck_agent_id p] now (drop_checks [pid] d)"
  have del: "delete_check d now pid False = Inr ?d"
    using p by (simp add: delete_check_def get_check_by_id_def)
  have "cid \<noteq> pid" using p c by auto
  then have "c\<lparr>ck_depends_on := None\<rparr> \<in> set (checks ?d)"
    using get_check_in [OF c(1)] c(3) by (force simp: drop_checks_def)
  moreover have "wired ?d" using w by (simp add: wired_drop_checks)
  ultimately have "get_check ?d cid = Some (c\<lparr>ck_depends_on := None\<rparr>)"
    using get_check_own [of ?d "c\<lparr>ck_depends_on := None\<rparr>"] get_check_in [OF c(1)] by (simp add: wired_def)
  note detached = del this
  have "c \<in> set (list_dependents d pid)" "is_synthetic d (ck_id c)"
    using c get_check_in [OF c(1)] by (auto simp: list_dependents_def is_synthetic_def)
  then have "list_ex (is_synthetic d) (map ck_id (list_dependents d pid))" by (auto simp: list_ex_iff)
  moreover have "ck_depends_on p = None"
    using w p(1) c(3) get_check_in [OF c(1)] by (fastforce simp: wired_def single_level_def)
  ultimately have "set_dependents d pid [] False = Inl (AuthorizationException ''Synthetic checks require admin privileges'')"
    using p(1) by (simp add: set_dependents_def Let_def parents_among_def require_admin_actor_def)
  with detached show ?thesis by blast
qed

end
