(* ===== verification/CheckAdmin.thy ===== *)
theory CheckAdmin
  imports Checks Alerts
begin

text \<open>
  What the single operations of check and alert administration do, each on its own: the lists they
  make exact, the counts they report, the rows they leave alone.
\<close>

section \<open>An alert's checks\<close>

lemma set_list_check_ids:
  "set (list_check_ids d aid) = am_check_id ` {m \<in> set (check_mappings d). am_alert_id m = aid}"
  by (simp add: list_check_ids_def)

lemma new_mapping_ids [simp]: "am_alert_id (new_mapping aid cid) = aid" "am_check_id (new_mapping aid cid) = cid"
  by (simp_all add: new_mapping_def)

lemma mapped_in_list: "mapped d aid c \<longleftrightarrow> c \<in> set (list_check_ids d aid)"
  by (auto simp: mapped_def list_ex_iff set_list_check_ids)

lemma set_checks_cases:
  assumes "set_checks busy d aid cids adm = Inr (d', a, r)"
  defines "current \<equiv> set (list_check_ids d aid)"
  shows "replace_check_mappings d aid (list_check_ids d aid) (remdups cids) = (d', a, r)"
    "\<forall>c\<in>(current - set cids) \<union> (set cids - current). get_check d c \<noteq> None \<and> (is_synthetic d c \<longrightarrow> adm)"
  using assms
  by (auto simp: set_checks_def require_checks_def require_admin_actor_def Let_def res_bind_Inr_iff list_ex_iff
      split: if_splits)

lemma card_mappings:
  assumes "distinct (map mapping_key ms)"
  shows "length (filter (\<lambda>m. am_alert_id m = aid \<and> am_check_id m \<in> S) ms) =
    card (am_check_id ` {m \<in> set ms. am_alert_id m = aid \<and> am_check_id m \<in> S})"
proof -
  let ?fs = "filter (\<lambda>m. am_alert_id m = aid \<and> am_check_id m \<in> S) ms"
  have "distinct ms" "inj_on mapping_key (set ms)" using assms by (auto simp: distinct_map)
  then have "distinct (map am_check_id ?fs)" by (auto simp: distinct_map inj_on_def)
  then have "length ?fs = card (set (map am_check_id ?fs))" using distinct_card [of "map am_check_id ?fs"] by simp
  then show ?thesis by simp
qed

lemma replace_exact:
  assumes w: "distinct (map mapping_key (check_mappings d))"
    and r: "replace_check_mappings d aid (list_check_ids d aid) (remdups cids) = (d', a, r)"
  defines "current \<equiv> set (list_check_ids d aid)"
  shows "check_mappings d' =
      filter (\<lambda>m. am_alert_id m = aid \<longrightarrow> am_check_id m \<in> set cids) (check_mappings d) @
      map (new_mapping aid) (filter (\<lambda>c. c \<notin> current) (remdups cids))" (is "_ = ?kept @ _")
    and "a = card (set cids - current)" and "r = card (current - set cids)"
    and "alerts d' = alerts d"
proof -
  let ?old = "set (list_check_ids d aid)"
  have k: "filter (\<lambda>m. \<not> (am_alert_id m = aid \<and> am_check_id m \<in> set (filter (\<lambda>c. c \<notin> set (remdups cids)) (list_check_ids d aid))))
      (check_mappings d) = ?kept"
    by (rule filter_cong) (auto simp: set_list_check_ids)
  have n: "filter (\<lambda>c. c \<notin> ?old \<and> \<not> mapped (d\<lparr>check_mappings := ?kept\<rparr>) aid c) (remdups (remdups cids)) =
      filter (\<lambda>c. c \<notin> ?old) (remdups cids)"
    by (auto simp: mapped_in_list set_list_check_ids intro!: filter_cong)
  have e: "d' = d\<lparr>check_mappings := ?kept @ map (new_mapping aid) (filter (\<lambda>c. c \<notin> current) (remdups cids))\<rparr>"
    "a = length (filter (\<lambda>c. c \<notin> current) (remdups cids))" "r = length (check_mappings d) - length ?kept"
    using r [unfolded replace_check_mappings_def Let_def k n] by (simp_all add: current_def)
  from e(1) show "check_mappings d' = ?kept @ map (new_mapping aid) (filter (\<lambda>c. c \<notin> current) (remdups cids))"
    "alerts d' = alerts d" by simp_all
  have "a = card (set (filter (\<lambda>c. c \<notin> current) (remdups cids)))"
    unfolding e(2) by (rule distinct_card [symmetric]) simp
  also have "set (filter (\<lambda>c. c \<notin> current) (remdups cids)) = set cids - current" by auto
  finally show "a = card (set cids - current)" .
  have "r = length (filter (\<lambda>m. am_alert_id m = aid \<and> am_check_id m \<in> - set cids) (check_mappings d))"
    unfolding e(3) using sum_length_filter_compl [of "\<lambda>m. am_alert_id m = aid \<longrightarrow> am_check_id m \<in> set cids" "check_mappings d"]
    by (simp add: conj_commute)
  also have "\<dots> = card (am_check_id ` {m \<in> set (check_mappings d). am_alert_id m = aid \<and> am_check_id m \<in> - set cids})"
    by (rule card_mappings [OF w])
  also have "am_check_id ` {m \<in> set (check_mappings d). am_alert_id m = aid \<and> am_check_id m \<in> - set cids} = current - set cids"
    by (auto simp: current_def set_list_check_ids)
  finally show "r = card (current - set cids)" .
qed

text \<open>C27: Setting an alert's checks makes the list exactly the one asked for and reports what was added
  and removed. A check kept keeps its mapping row, snooze included; other alerts' mappings stay as they
  are; new rows are fresh ones for checks that exist; and a synthetic check is gained or lost only by an
  admin's request.\<close>

theorem set_checks_exact:
  assumes "set_checks busy d aid cids adm = Inr (d', added, removed)" "wired d"
  defines "current \<equiv> set (list_check_ids d aid)"
  shows "set (list_check_ids d' aid) = set cids \<and>
    (\<forall>m. am_alert_id m \<noteq> aid \<or> am_check_id m \<in> current \<inter> set cids \<longrightarrow>
       (m \<in> set (check_mappings d') \<longleftrightarrow> m \<in> set (check_mappings d))) \<and>
    (\<forall>c\<in>set cids - current. new_mapping aid c \<in> set (check_mappings d')) \<and>
    added = card (set cids - current) \<and> removed = card (current - set cids) \<and>
    (\<forall>c\<in>(current - set cids) \<union> (set cids - current). get_check d c \<noteq> None \<and> (is_synthetic d c \<longrightarrow> adm))"
proof -
  have w: "distinct (map mapping_key (check_mappings d))" using assms(2) by (simp add: wired_def)
  note s = set_checks_cases [OF assms(1)]
  note e = replace_exact [OF w s(1)]
  have "{m \<in> set (check_mappings d'). am_alert_id m = aid} =
      {m \<in> set (check_mappings d). am_alert_id m = aid \<and> am_check_id m \<in> set cids} \<union> new_mapping aid ` (set cids - current)"
    unfolding e(1) by (auto simp: current_def)
  then have "set (list_check_ids d' aid) =
      am_check_id ` {m \<in> set (check_mappings d). am_alert_id m = aid \<and> am_check_id m \<in> set cids} \<union> (set cids - current)"
    by (simp add: set_list_check_ids image_Un image_image)
  also have "\<dots> = set cids" by (auto simp: current_def set_list_check_ids)
  finally have "set (list_check_ids d' aid) = set cids" .
  moreover have "\<forall>m. am_alert_id m \<noteq> aid \<or> am_check_id m \<in> current \<inter> set cids \<longrightarrow>
      (m \<in> set (check_mappings d') \<longleftrightarrow> m \<in> set (check_mappings d))"
    by (auto simp: e(1) current_def)
  moreover have "\<forall>c\<in>set cids - current. new_mapping aid c \<in> set (check_mappings d')"
    by (auto simp: e(1) current_def)
  ultimately show ?thesis using e(2,3) s(2) unfolding current_def by blast
qed

section \<open>A check's alerts\<close>

lemma set_alert_ids:
  "set (list_alert_ids_for_check d cid) = am_alert_id ` {m \<in> set (check_mappings d). am_check_id m = cid}"
  by (simp add: list_alert_ids_for_check_def)

lemma in_alert_ids: "aid \<in> set (list_alert_ids_for_check d cid) \<longleftrightarrow> get_check_mapping d aid cid \<noteq> None"
  by (auto simp: set_alert_ids get_check_mapping_def find_None_iff image_iff)

lemma removed_mappings:
  "check_mappings (foldl (\<lambda>x aid. remove_check x aid cid) d aids) =
     filter (\<lambda>m. \<not> (am_check_id m = cid \<and> am_alert_id m \<in> set aids)) (check_mappings d) \<and>
   alerts (foldl (\<lambda>x aid. remove_check x aid cid) d aids) = alerts d"
  by (induction aids arbitrary: d) (auto simp: remove_check_def intro!: filter_cong)

lemma add_checks_mappings:
  "add_checks d aids cid = Inr d' \<Longrightarrow> check_mappings d' = check_mappings d @ map (\<lambda>aid. new_mapping aid cid) aids"
  by (induction d aids cid arbitrary: d' rule: add_checks.induct)
    (auto simp: res_bind_Inr_iff add_check_def split: option.splits if_splits)

lemma add_checks_total:
  assumes "distinct aids" "set aids \<subseteq> al_id ` set (alerts d)" "get_check d cid \<noteq> None"
    "\<forall>aid\<in>set aids. get_check_mapping d aid cid = None"
  shows "\<exists>d'. add_checks d aids cid = Inr d'"
  using assms
proof (induction aids arbitrary: d)
  case (Cons aid aids)
  let ?d = "d\<lparr>check_mappings := check_mappings d @ [new_mapping aid cid]\<rparr>"
  have "add_check d aid cid = Inr ?d" using Cons.prems by (simp add: add_check_def)
  moreover have "\<exists>d'. add_checks ?d aids cid = Inr d'"
    using Cons.prems
    by (intro Cons.IH) (auto simp: get_check_def get_check_mapping_def find_None_iff)
  ultimately show ?case by simp
qed simp

text \<open>Syncing a check's alerts makes them exactly the ones selected. The error for a check already
  added cannot arise, as the code's comment claims: with the check and the selected alerts present the
  sync goes through. Mappings kept stay as they are, and other checks' mappings are not touched.\<close>

theorem sync_exact:
  assumes "get_check d cid \<noteq> None" "set aids \<subseteq> al_id ` set (alerts d)"
  shows "\<exists>d'. sync_check_alerts d cid aids = Inr d' \<and> set (list_alert_ids_for_check d' cid) = set aids \<and>
    (\<forall>m. am_check_id m \<noteq> cid \<or> am_alert_id m \<in> set aids \<inter> set (list_alert_ids_for_check d cid) \<longrightarrow>
       (m \<in> set (check_mappings d') \<longleftrightarrow> m \<in> set (check_mappings d)))"
proof -
  let ?cur = "set (list_alert_ids_for_check d cid)"
  let ?gone = "filter (\<lambda>a. a \<notin> set (remdups aids)) (remdups (list_alert_ids_for_check d cid))"
  let ?new = "filter (\<lambda>a. a \<notin> set (remdups (list_alert_ids_for_check d cid))) (remdups aids)"
  define d1 where "d1 = foldl (\<lambda>x aid. remove_check x aid cid) d ?gone"
  have m1: "check_mappings d1 = filter (\<lambda>m. am_check_id m = cid \<longrightarrow> am_alert_id m \<in> set aids) (check_mappings d)"
    using removed_mappings [of cid d ?gone] unfolding d1_def by (auto simp: set_alert_ids intro!: filter_cong)
  have "\<exists>d'. add_checks d1 ?new cid = Inr d'"
  proof (rule add_checks_total)
    show "set ?new \<subseteq> al_id ` set (alerts d1)" using assms(2) removed_mappings [of cid d ?gone] by (auto simp: d1_def)
    show "get_check d1 cid \<noteq> None" using assms(1) by (simp add: get_check_def d1_def checks_remove)
    have "get_check_mapping d1 aid cid = None" if "get_check_mapping d aid cid = None" for aid
      using that by (auto simp: get_check_mapping_def find_None_iff m1)
    then show "\<forall>aid\<in>set ?new. get_check_mapping d1 aid cid = None" by (auto simp: in_alert_ids)
  qed simp
  then obtain d' where d': "add_checks d1 ?new cid = Inr d'" ..
  then have s: "sync_check_alerts d cid aids = Inr d'" by (simp add: sync_check_alerts_def Let_def d1_def)
  have ms: "check_mappings d' = check_mappings d1 @ map (\<lambda>aid. new_mapping aid cid) ?new"
    by (rule add_checks_mappings [OF d'])
  have "{m \<in> set (check_mappings d'). am_check_id m = cid} =
      {m \<in> set (check_mappings d). am_check_id m = cid \<and> am_alert_id m \<in> set aids} \<union> (\<lambda>aid. new_mapping aid cid) ` (set aids - ?cur)"
    unfolding ms m1 by auto
  then have "set (list_alert_ids_for_check d' cid) =
      am_alert_id ` {m \<in> set (check_mappings d). am_check_id m = cid \<and> am_alert_id m \<in> set aids} \<union> (set aids - ?cur)"
    by (simp add: set_alert_ids image_Un image_image)
  also have "\<dots> = set aids" by (auto simp: set_alert_ids)
  finally have "set (list_alert_ids_for_check d' cid) = set aids" .
  moreover have "\<forall>m. am_check_id m \<noteq> cid \<or> am_alert_id m \<in> set aids \<inter> ?cur \<longrightarrow>
      (m \<in> set (check_mappings d') \<longleftrightarrow> m \<in> set (check_mappings d))"
    unfolding ms m1 by auto
  ultimately show ?thesis using s by blast
qed

section \<open>Snoozing\<close>

lemma find_update:
  assumes "\<And>m. P (g m) = P m"
  shows "find P (map (\<lambda>m. if P m then g m else m) ms) = map_option g (find P ms)"
  using assms by (induction ms) auto

text \<open>However often a pair is snoozed, notifications resume within a day of the last call: the new end
  is the live snooze or now, plus the minutes asked for, and never past a day from now. A live snooze
  within a day is never shortened, and no other pair is touched.\<close>

theorem snooze_capped:
  assumes "snooze_alert_check d now (al_id alert) (ck_id check) minutes = Inr (d', t)" "0 \<le> minutes"
    and "now + MAX_SNOOZE \<le> later"
  shows "\<not> is_snoozed d' later alert check \<and> now \<le> t \<and> t \<le> now + MAX_SNOOZE \<and>
    (\<forall>m s. get_check_mapping d (al_id alert) (ck_id check) = Some m \<and> am_snoozed_until m = Some s \<and>
       s \<le> now + MAX_SNOOZE \<longrightarrow> s \<le> t) \<and>
    (\<forall>m. mapping_key m \<noteq> (al_id alert, ck_id check) \<longrightarrow>
       (m \<in> set (check_mappings d') \<longleftrightarrow> m \<in> set (check_mappings d)))"
proof -
  let ?k = "\<lambda>x. am_alert_id x = al_id alert \<and> am_check_id x = ck_id check"
  let ?g = "\<lambda>x. x\<lparr>am_snoozed_until := Some (snooze_end now minutes (am_snoozed_until x))\<rparr>"
  from assms(1) obtain m where m: "get_check_mapping d (al_id alert) (ck_id check) = Some m"
    and t: "t = snooze_end now minutes (am_snoozed_until m)"
    and d': "d' = update_mapping (al_id alert) (ck_id check) ?g d"
    by (auto simp: snooze_alert_check_def split: option.splits)
  have "get_check_mapping d' (al_id alert) (ck_id check) = Some (?g m)"
    unfolding d' update_mapping_def get_check_mapping_def
    using m [unfolded get_check_mapping_def] by (simp add: find_update [of ?k ?g])
  moreover have "t \<le> now + MAX_SNOOZE" "now \<le> t"
    using assms(2) by (auto simp: t snooze_end_def Let_def MAX_SNOOZE_def MINUTE_def split: option.splits)
  moreover have "s \<le> t" if "am_snoozed_until m = Some s" "s \<le> now + MAX_SNOOZE" for s
    using that assms(2) by (auto simp: t snooze_end_def Let_def MAX_SNOOZE_def MINUTE_def)
  moreover have "x \<in> set (check_mappings d') \<longleftrightarrow> x \<in> set (check_mappings d)" if "\<not> ?k x" for x
    using that by (auto simp: d' update_mapping_def image_iff)
  ultimately show ?thesis using assms(3) m by (auto simp: is_snoozed_def t)
qed

section \<open>Dependents\<close>

lemma set_parent_dependents:
  "list_dependents (set_parent pid attach detach f) pid =
     map (\<lambda>c. if ck_id c \<in> set attach then c\<lparr>ck_depends_on := Some pid\<rparr> else c)
       (filter (\<lambda>c. ck_id c \<notin> set detach \<and> (ck_id c \<in> set attach \<or> ck_depends_on c = Some pid)) (checks f))"
proof -
  have "filter (\<lambda>c. ck_depends_on c = Some pid) (map (\<lambda>c. if ck_id c \<in> set detach then c\<lparr>ck_depends_on := None\<rparr>
        else if ck_id c \<in> set attach then c\<lparr>ck_depends_on := Some pid\<rparr> else c) cs) =
      map (\<lambda>c. if ck_id c \<in> set attach then c\<lparr>ck_depends_on := Some pid\<rparr> else c)
        (filter (\<lambda>c. ck_id c \<notin> set detach \<and> (ck_id c \<in> set attach \<or> ck_depends_on c = Some pid)) cs)" for cs :: "Check list"
    by (induction cs) auto
  then show ?thesis by (simp add: list_dependents_def set_parent_def)
qed

text \<open>Setting a parent's dependents makes them exactly the checks named, and reports how many joined
  and left. Only those checks change, and only in their parent; each was checked to exist, to be no parent
  itself and not the parent; and the parent has none.\<close>

theorem set_dependents_exact:
  assumes s: "set_dependents d pid cids adm = Inr (d', added, removed)" and w: "wired d"
  defines "current \<equiv> set (map ck_id (list_dependents d pid))"
  shows "set (map ck_id (list_dependents d' pid)) = set cids \<and>
    added = card (set cids - current) \<and> removed = card (current - set cids) \<and>
    (\<forall>c\<in>set (checks d). \<exists>c'\<in>set (checks d'). c' =
       (if ck_id c \<in> set cids then c\<lparr>ck_depends_on := Some pid\<rparr>
        else if ck_id c \<in> current then c\<lparr>ck_depends_on := None\<rparr> else c)) \<and>
    pid \<notin> set cids \<and> (\<forall>c\<in>set cids. get_check d c \<noteq> None \<and> list_dependents d c = [])"
proof (rule set_dependents_cases [OF s])
  fix parent to_add to_remove
  assume kids: "\<forall>c\<in>set cids. get_check d c \<noteq> None \<and> list_dependents d c = []" and p: "pid \<notin> set cids"
    and to_add: "to_add = filter (\<lambda>c. c \<notin> set (map ck_id (list_dependents d pid))) (remdups cids)"
    and to_remove: "to_remove = filter (\<lambda>c. c \<notin> set cids) (map ck_id (list_dependents d pid))"
    and d': "d' = set_parent pid to_add to_remove d" and n: "added = length to_add" "removed = length to_remove"
  have ids: "distinct (map ck_id (checks d))" using w by (simp add: wired_def)
  have sets: "set to_add = set cids - current" "set to_remove = current - set cids"
    by (auto simp: to_add to_remove current_def)
  have cur: "ck_id c \<in> current \<longleftrightarrow> ck_depends_on c = Some pid" if "c \<in> set (checks d)" for c
    using that ids by (auto simp: current_def list_dependents_def distinct_map inj_on_def)
  have "distinct (map ck_id (list_dependents d pid))"
    using ids by (simp add: list_dependents_def distinct_map_filter)
  then have "distinct to_add" "distinct to_remove" by (auto simp: to_add to_remove)
  with n sets have counts: "added = card (set cids - current)" "removed = card (current - set cids)"
    using distinct_card [of to_add] distinct_card [of to_remove] by simp_all
  have exist: "set cids \<subseteq> ck_id ` set (checks d)" using kids get_check_in [of d] by fastforce
  have "set (map ck_id (list_dependents d' pid)) =
      ck_id ` {c \<in> set (checks d). ck_id c \<notin> set to_remove \<and> (ck_id c \<in> set to_add \<or> ck_depends_on c = Some pid)}"
    unfolding d' set_parent_dependents by (auto simp: image_iff)
  also have "\<dots> = set cids" using exist cur by (auto simp: sets)
  finally have exact: "set (map ck_id (list_dependents d' pid)) = set cids" .
  let ?g = "\<lambda>c :: Check. if ck_id c \<in> set to_remove then c\<lparr>ck_depends_on := None\<rparr>
      else if ck_id c \<in> set to_add then c\<lparr>ck_depends_on := Some pid\<rparr> else c"
  have same: "c\<lparr>ck_depends_on := Some pid\<rparr> = c" if "ck_depends_on c = Some pid" for c :: Check using that by simp
  have "?g c = (if ck_id c \<in> set cids then c\<lparr>ck_depends_on := Some pid\<rparr>
        else if ck_id c \<in> current then c\<lparr>ck_depends_on := None\<rparr> else c)" if "c \<in> set (checks d)" for c
    using cur [OF that] by (simp add: sets same)
  moreover have "?g c \<in> set (checks d')" if "c \<in> set (checks d)" for c
    unfolding d' set_parent_def using that by simp
  ultimately have "\<forall>c\<in>set (checks d). \<exists>c'\<in>set (checks d'). c' =
       (if ck_id c \<in> set cids then c\<lparr>ck_depends_on := Some pid\<rparr>
        else if ck_id c \<in> current then c\<lparr>ck_depends_on := None\<rparr> else c)" by metis
  then show ?thesis using exact counts p kids by blast
qed

section \<open>Counts of bulk operations\<close>

lemma bulk_permitted_split:
  "length (fst (bulk_permitted f ids adm)) + length (snd (bulk_permitted f ids adm)) = length ids \<and>
   (distinct ids \<longrightarrow> distinct (fst (bulk_permitted f ids adm)))"
  using sum_length_filter_compl [of "is_synthetic f" ids] by (simp add: bulk_permitted_def)

lemma rows_among:
  assumes "distinct (map ck_id cs)"
  shows "length (filter (\<lambda>c. ck_id c \<in> set ids) cs) = card (set ids \<inter> ck_id ` set cs)"
proof -
  have "distinct (map ck_id (filter (\<lambda>c. ck_id c \<in> set ids) cs))" using assms by (simp add: distinct_map_filter)
  then have "length (filter (\<lambda>c. ck_id c \<in> set ids) cs) = card (set (map ck_id (filter (\<lambda>c. ck_id c \<in> set ids) cs)))"
    using distinct_card [of "map ck_id (filter (\<lambda>c. ck_id c \<in> set ids) cs)"] by simp
  also have "set (map ck_id (filter (\<lambda>c. ck_id c \<in> set ids) cs)) = set ids \<inter> ck_id ` set cs" by auto
  finally show ?thesis .
qed

text \<open>The counts of a bulk enable, disable or delete add up to the checks asked for, whether or not the
  database goes along, and the successes are exactly the permitted checks that exist: an id that names no
  check, and a non-admin's synthetic check, is a failure and not a silence.\<close>

theorem bulk_counts_add_up:
  assumes "wired d" "distinct ids"
    and "r = snd (bulk_set_enabled d now ok ids b adm) \<or> r = snd (bulk_delete d now ok ids adm)"
  shows "success_count r + failure_count r = int (length ids) \<and> 0 \<le> failure_count r \<and>
    (ok \<longrightarrow> success_count r = int (card {c \<in> set ids. get_check d c \<noteq> None \<and> (adm \<or> \<not> is_synthetic d c)}))"
proof -
  define perm where "perm = fst (bulk_permitted d ids adm)"
  define refused where "refused = snd (bulk_permitted d ids adm)"
  have split: "int (length perm) + int (length refused) = int (length ids)" "distinct perm"
    using bulk_permitted_split [of d ids adm] assms(2) by (auto simp: perm_def refused_def simp flip: of_nat_add)
  have "set perm \<inter> ck_id ` set (checks d) = {c \<in> set ids. get_check d c \<noteq> None \<and> (adm \<or> \<not> is_synthetic d c)}"
    by (auto simp: perm_def bulk_permitted_def get_check_def find_None_iff image_iff)
  then have hits: "length (filter (\<lambda>c. ck_id c \<in> set perm) (checks d)) =
      card {c \<in> set ids. get_check d c \<noteq> None \<and> (adm \<or> \<not> is_synthetic d c)}"
    using rows_among [of "checks d" perm] assms(1) by (simp add: wired_def)
  have few: "length (filter (\<lambda>c. ck_id c \<in> set perm) (checks d)) \<le> length perm"
    using rows_among [of "checks d" perm] assms(1) card_mono [of "set perm"] distinct_card [OF split(2)]
    by (fastforce simp: wired_def)
  have "r = (if perm = [] then with_refused \<lparr>success_count = 0, failure_count = 0, errors = []\<rparr> refused
      else if \<not> ok then with_refused \<lparr>success_count = 0, failure_count = int (length perm), errors = [IntegrityError]\<rparr> refused
      else with_refused (bulk_outcome perm (length (filter (\<lambda>c. ck_id c \<in> set perm) (checks d)))) refused)"
    using assms(3) by (auto simp: bulk_set_enabled_def bulk_delete_def perm_def refused_def split: prod.splits)
  then show ?thesis
    using split hits few distinct_card [OF split(2)] by (auto simp: with_refused_def bulk_outcome_def Let_def) force
qed

section \<open>Clones\<close>

text \<open>The mapping table as the map from pairs to rows that its unique constraint makes it.\<close>

lemma get_mapping_update:
  assumes "\<And>m. mapping_key (g m) = mapping_key m"
  shows "get_check_mapping (update_mapping aid cid g d) aid' cid' =
    (if aid' = aid \<and> cid' = cid then map_option g (get_check_mapping d aid cid) else get_check_mapping d aid' cid')"
proof -
  have k: "am_alert_id (g m) = am_alert_id m" "am_check_id (g m) = am_check_id m" for m using assms by auto
  have "find (\<lambda>m. am_alert_id m = aid' \<and> am_check_id m = cid')
      (map (\<lambda>m. if am_alert_id m = aid \<and> am_check_id m = cid then g m else m) ms) =
    (if aid' = aid \<and> cid' = cid then map_option g (find (\<lambda>m. am_alert_id m = aid \<and> am_check_id m = cid) ms)
     else find (\<lambda>m. am_alert_id m = aid' \<and> am_check_id m = cid') ms)" for ms
    by (induction ms) (auto simp: k)
  then show ?thesis by (simp add: get_check_mapping_def update_mapping_def)
qed

lemma get_mapping_add:
  assumes "get_check_mapping d aid cid = None"
  shows "get_check_mapping (d\<lparr>check_mappings := check_mappings d @ [new_mapping aid cid]\<rparr>) aid' cid' =
    (if aid' = aid \<and> cid' = cid then Some (new_mapping aid cid) else get_check_mapping d aid' cid')"
  using assms by (auto simp: get_check_mapping_def find_append split: option.split)

abbreviation copied :: "AlertCheckMapping \<Rightarrow> AlertCheckMapping \<Rightarrow> AlertCheckMapping" where
  "copied s m \<equiv> m\<lparr>am_is_enabled := am_is_enabled s, am_override_resend_interval := am_override_resend_interval s,
     am_override_max_resends := am_override_max_resends s\<rparr>"

lemma get_mapping_copy:
  assumes "am_alert_id s \<in> set held \<longleftrightarrow> get_check_mapping d (am_alert_id s) tgt \<noteq> None"
  shows "get_check_mapping (copy_mapping held tgt d s) aid cid =
    (if aid = am_alert_id s \<and> cid = tgt
     then Some (copied s (case get_check_mapping d aid tgt of None \<Rightarrow> new_mapping aid tgt | Some m \<Rightarrow> m))
     else get_check_mapping d aid cid)"
  using assms get_mapping_add [of d "am_alert_id s" tgt]
  by (cases "am_alert_id s \<in> set held") (auto simp: copy_mapping_def Let_def get_mapping_update)

lemma get_mapping_copies:
  assumes "distinct (map am_alert_id ss)"
    and "\<forall>s\<in>set ss. am_alert_id s \<in> set held \<longleftrightarrow> get_check_mapping d (am_alert_id s) tgt \<noteq> None"
  shows "get_check_mapping (foldl (copy_mapping held tgt) d ss) aid cid =
    (case find (\<lambda>s. am_alert_id s = aid) ss of
       Some s \<Rightarrow> if cid = tgt then Some (copied s (case get_check_mapping d aid tgt of None \<Rightarrow> new_mapping aid tgt | Some m \<Rightarrow> m))
         else get_check_mapping d aid cid
     | None \<Rightarrow> get_check_mapping d aid cid)"
  using assms
proof (induction ss arbitrary: d)
  case (Cons s ss)
  have "\<forall>s'\<in>set ss. am_alert_id s' \<in> set held \<longleftrightarrow> get_check_mapping (copy_mapping held tgt d s) (am_alert_id s') tgt \<noteq> None"
    using Cons.prems by (auto simp: get_mapping_copy) (metis imageI)
  moreover have "find (\<lambda>x. am_alert_id x = am_alert_id s) ss = None"
    using Cons.prems(1) by (auto simp: find_None_iff) (metis imageI)
  ultimately show ?case
    using Cons by (auto simp: get_mapping_copy split: option.split)
qed simp

lemma get_mapping_global:
  assumes "distinct (map al_id (alerts d))" "\<forall>aid. get_check_mapping d aid cid = None"
  shows "get_check_mapping (assign_global_alerts_to_check d cid) aid cid' =
    (if cid' = cid then (if aid \<in> set (list_global_enabled_alert_ids d) then Some (new_mapping aid cid) else None)
     else get_check_mapping d aid cid')"
proof -
  have none: "list_alert_ids_for_check d cid = []"
    using assms(2) by (auto simp: list_alert_ids_for_check_def get_check_mapping_def find_None_iff filter_empty_conv)
  have "find (\<lambda>m. am_alert_id m = aid \<and> am_check_id m = cid') (map (\<lambda>a. new_mapping a cid) xs) =
      (if aid \<in> set xs \<and> cid' = cid then Some (new_mapping aid cid) else None)" for xs
    by (induction xs) auto
  then show ?thesis
    using assms(2) by (auto simp: assign_global_alerts_to_check_def none get_check_mapping_def find_append split: option.split)
qed

text \<open>C26: A clone watches what its source watches. For each alert of the source the clone has a mapping
  with the source's enabled state and overrides and no snooze; beyond those it has the enabled global
  alerts and nothing else; and no other check's mapping changes.\<close>

theorem clone_copies_alerts:
  assumes c: "clone_check v d now new_id src aid u skip adm = Inr d'" and w: "wired d"
    and fresh: "new_id \<notin> ck_id ` set (checks d)" "\<forall>x. get_check_mapping d x new_id = None"
  shows "get_check_mapping d' x cid =
    (if cid \<noteq> new_id then get_check_mapping d x cid
     else case get_check_mapping d x src of
       Some m \<Rightarrow> Some (m\<lparr>am_check_id := new_id, am_snoozed_until := None\<rparr>)
     | None \<Rightarrow> if x \<in> set (list_global_enabled_alert_ids d) then Some (new_mapping x new_id) else None)"
proof -
  from c obtain data d1 where cr: "create_check v d now new_id aid data skip adm = Inr d1"
    and d': "d' = copy_check_mappings d1 src new_id" and "get_check_by_id d src \<noteq> Inl (NotFoundException ''Check'')"
    by (auto simp: clone_check_def res_bind_Inr_iff)
  then have ne: "src \<noteq> new_id" using fresh(1) get_check_in [of d src] by (auto simp: get_check_by_id_def split: option.splits)
  have w1: "wired d1" by (rule wired_create [OF w cr fresh(1)])
  have m1: "get_check_mapping d1 y cid' = (if cid' = new_id then
      (if y \<in> set (list_global_enabled_alert_ids d) then Some (new_mapping y new_id) else None) else get_check_mapping d y cid')" for y cid'
  proof (rule create_check_cases [OF cr])
    fix agent
    let ?d = "d\<lparr>checks := checks d @ [new_check new_id now agent data]\<rparr>"
    assume "d1 = (let d2 = assign_global_alerts_to_check ?d new_id in if skip then d2 else touch_agents [ag_id agent] now d2)"
    then have "get_check_mapping d1 y cid' = get_check_mapping (assign_global_alerts_to_check ?d new_id) y cid'"
      by (simp add: get_check_mapping_def Let_def touch_agents_def)
    also have "\<dots> = (if cid' = new_id then (if y \<in> set (list_global_enabled_alert_ids ?d) then Some (new_mapping y new_id) else None)
        else get_check_mapping ?d y cid')"
      using w fresh(2) by (intro get_mapping_global) (simp_all add: wired_def get_check_mapping_def)
    finally show ?thesis by (simp add: list_global_enabled_alert_ids_def get_check_mapping_def)
  qed
  let ?ss = "list_check_mappings d1 src" and ?held = "map am_alert_id (list_check_mappings d1 new_id)"
  have ids: "distinct (map am_alert_id ?ss)"
    using w1 by (auto simp: wired_def list_check_mappings_def distinct_map inj_on_def)
  have held: "y \<in> set ?held \<longleftrightarrow> get_check_mapping d1 y new_id \<noteq> None" for y
    by (auto simp: list_check_mappings_def get_check_mapping_def find_None_iff image_iff)
  have "find (\<lambda>s. am_alert_id s = x) (filter (\<lambda>m. am_check_id m = src) ms) =
      find (\<lambda>m. am_alert_id m = x \<and> am_check_id m = src) ms" for ms by (induction ms) auto
  then have "find (\<lambda>s. am_alert_id s = x) ?ss = get_check_mapping d1 x src"
    by (simp add: list_check_mappings_def get_check_mapping_def)
  then have src: "find (\<lambda>s. am_alert_id s = x) ?ss = get_check_mapping d x src" using ne by (simp add: m1)
  have "copied m (new_mapping x new_id) = m\<lparr>am_check_id := new_id, am_snoozed_until := None\<rparr>"
    if "get_check_mapping d x src = Some m" for m
    using that by (auto simp: get_check_mapping_def find_Some_iff new_mapping_def)
  then show ?thesis
    unfolding d' copy_check_mappings_def Let_def
    using get_mapping_copies [OF ids, of ?held d1 new_id x cid] held
    by (auto simp: src m1 split: option.split)
qed

section \<open>Two dependency changes at once\<close>

text \<open>C28: The single-level rule is judged before the write and no lock is taken in between. Three checks
  without parents or dependents: one request makes the first depend on the second, another makes the
  second depend on the third. Judged against the same state both are accepted, and once both have written
  the checks form a chain of two levels.\<close>

theorem dependency_race:
  assumes "wired d" "distinct [a, b, c]"
    and "\<forall>x\<in>{a, b, c}. \<exists>k. get_check d x = Some k \<and> ck_depends_on k = None \<and> list_dependents d x = []"
  shows "validate_dependency d (Some b) (Some a) = Inr () \<and> validate_dependency d (Some c) (Some b) = Inr () \<and>
    \<not> single_level (set_parent c [b] [] (set_parent b [a] [] d))"
proof -
  let ?d = "set_parent c [b] [] (set_parent b [a] [] d)"
  from assms obtain ka kb where k: "get_check d a = Some ka" "get_check d b = Some kb"
    "ck_id ka = a" "ck_id kb = b" "ka \<in> set (checks d)" "kb \<in> set (checks d)"
    using get_check_in [of d] by fastforce
  have "validate_dependency d (Some b) (Some a) = Inr () \<and> validate_dependency d (Some c) (Some b) = Inr ()"
    using assms(2,3) by (auto simp: validate_dependency_def count_dependents_def)
  moreover have "ka\<lparr>ck_depends_on := Some b\<rparr> \<in> set (checks ?d)"
    using k assms(2) by (force simp: set_parent_def)
  moreover have "get_check ?d b = Some (kb\<lparr>ck_depends_on := Some c\<rparr>)"
    using k(2,4) assms(2) by (simp add: get_check_def set_parent_def get_check_map o_def)
  ultimately show ?thesis by (force simp: single_level_def)
qed

section \<open>At work\<close>

definition demo_watch :: "uuid \<Rightarrow> bool \<Rightarrow> Alert" where
  "demo_watch aid everywhere = \<lparr>al_id = aid, al_trigger_type = STATUS_CHANGE, al_trigger_config = [], al_is_enabled = True,
     al_is_global = everywhere, al_notify_on_recovery = True, al_resend_interval_minutes = None,
     al_max_resends = None, al_deleted_at = None\<rparr>"

definition demo_script :: Check where
  "demo_script = demo_distributed\<lparr>ck_id := 10, ck_check_type := SYNTHETIC, ck_depends_on := Some 9,
     ck_script_code := Some ''run''\<rparr>"

definition admin_db :: db where
  "admin_db = \<lparr>agents = [demo_agent 2],
     checks = [demo_distributed, demo_script, demo_distributed\<lparr>ck_id := 11\<rparr>, demo_distributed\<lparr>ck_id := 12\<rparr>,
       demo_distributed\<lparr>ck_id := 13\<rparr>],
     alerts = [demo_watch 30 False, demo_watch 31 True],
     check_mappings = [(new_mapping 30 9)\<lparr>am_snoozed_until := Some 5\<rparr>, new_mapping 30 11],
     notif_mappings = [], providers = [], logs = [], results = []\<rparr>"

definition demo_vetting :: vetting where
  "demo_vetting = \<lparr>target_ok = (\<lambda>s. s = ''https://site''), script_ok = (\<lambda>s. s = ''run''), default_timeout = 10\<rparr>"

lemmas demo_rows = admin_db_def demo_distributed_def demo_script_def demo_watch_def new_mapping_def SYNTHETIC_def

lemma admin_db_checks [simp]:
  "get_check admin_db 9 = Some demo_distributed" "get_check admin_db 10 = Some demo_script"
  "get_check admin_db 11 = Some (demo_distributed\<lparr>ck_id := 11\<rparr>)"
  "get_check admin_db 12 = Some (demo_distributed\<lparr>ck_id := 12\<rparr>)"
  "get_check admin_db 13 = Some (demo_distributed\<lparr>ck_id := 13\<rparr>)"
  by (simp_all add: get_check_def admin_db_def demo_distributed_def demo_script_def)

lemma admin_db_wired [simp]: "wired admin_db"
proof -
  have "\<forall>c\<in>set (checks admin_db). ck_depends_on c = None \<or> ck_depends_on c = Some 9"
    by (simp add: demo_rows)
  then have "single_level admin_db"
    by (auto simp: single_level_def demo_distributed_def)
  then show ?thesis by (simp add: wired_def demo_rows)
qed

lemma admin_db_vetted [simp]: "all_vetted demo_vetting admin_db"
  by (simp add: all_vetted_def vetted_def held_config_def endpoint_ok_def text_of_def demo_vetting_def demo_rows)

lemma demo_script_row [simp]: "synthetic_row demo_script" "ck_depends_on demo_script = Some 9"
  "\<not> synthetic_row demo_distributed"
  by (simp_all add: demo_script_def demo_distributed_def SYNTHETIC_def)

text \<open>A run: a plain check is disabled, then the parent of the synthetic one deleted, by a non-admin.\<close>

definition demo_disabled :: db where
  "demo_disabled = fst (bulk_set_enabled admin_db 7 True [11, 10] False False)"

definition demo_orphaned :: db where
  "demo_orphaned = touch_agents [2] 8 (drop_checks [9] demo_disabled)"

lemma demo_run: "(config_step fit demo_vetting False)\<^sup>*\<^sup>* admin_db demo_orphaned"
proof -
  have "config_step fit demo_vetting False admin_db demo_disabled"
    unfolding demo_disabled_def by (rule cs_enable) (rule prod.collapse [symmetric])
  moreover have "delete_check demo_disabled 8 9 False = Inr demo_orphaned"
    by (simp add: delete_check_def get_check_by_id_def get_check_def demo_disabled_def demo_orphaned_def
        bulk_set_enabled_def bulk_permitted_def is_synthetic_def demo_rows)
  then have "config_step fit demo_vetting False demo_disabled demo_orphaned" by (rule cs_delete)
  ultimately show ?thesis by (meson r_into_rtranclp rtranclp.rtrancl_into_rtrancl)
qed

lemma demo_any_run: "(any_step fit demo_vetting)\<^sup>*\<^sup>* admin_db demo_orphaned"
  by (rule rtranclp_mono [THEN predicate2D, OF _ demo_run]) blast

theorem config_keeps_wired_witness:
  "wired admin_db \<and> (any_step (\<lambda>_ c. Some c) demo_vetting)\<^sup>*\<^sup>* admin_db demo_orphaned \<and> wired demo_orphaned"
  using config_keeps_wired [OF demo_any_run] demo_any_run by simp

theorem config_keeps_vetted_witness:
  "all_vetted demo_vetting admin_db \<and> (any_step (\<lambda>_ c. Some c) demo_vetting)\<^sup>*\<^sup>* admin_db demo_orphaned \<and>
   all_vetted demo_vetting demo_orphaned"
  using config_keeps_vetted [OF demo_any_run] demo_any_run by simp

theorem config_refines_rows_witness:
  "wired admin_db \<and> row_changes demo_vetting False (checks admin_db) (checks demo_disabled)"
proof -
  have "config_step (\<lambda>_ c. Some c) demo_vetting False admin_db demo_disabled"
    unfolding demo_disabled_def by (rule cs_enable) (rule prod.collapse [symmetric])
  from config_refines_rows [OF this] show ?thesis by simp
qed

theorem synthetic_is_admins_witness:
  "get_check admin_db 10 = Some demo_script \<and> synthetic_row demo_script \<and>
   (\<exists>c'. get_check demo_orphaned 10 = Some c' \<and> c' \<in> {demo_script, demo_script\<lparr>ck_depends_on := None\<rparr>})"
  using synthetic_is_admins [OF demo_run admin_db_wired admin_db_checks(2)] by simp

theorem parent_deletion_detaches_synthetic_witness:
  "(\<exists>d'. delete_check admin_db 8 9 False = Inr d' \<and>
      get_check d' 10 = Some (demo_script\<lparr>ck_depends_on := None\<rparr>)) \<and>
   set_dependents admin_db 9 [] False = Inl (AuthorizationException ''Synthetic checks require admin privileges'')"
  by (rule parent_deletion_detaches_synthetic [OF admin_db_wired admin_db_checks(1) _ admin_db_checks(2)]) simp_all

lemma demo_set_checks:
  "\<exists>d'. set_checks (\<lambda>_. False) admin_db 30 [9, 12, 12] False = Inr (d', 1, 1)"
  by (simp add: set_checks_def get_alert_by_id_def require_check_list_def require_checks_def list_check_ids_def
      replace_check_mappings_def mapped_def is_synthetic_def get_check_def Let_def demo_rows)

theorem set_checks_exact_witness:
  "\<exists>d'. set_checks (\<lambda>_. False) admin_db 30 [9, 12, 12] False = Inr (d', 1, 1) \<and> set (list_check_ids d' 30) = {9, 12}"
proof -
  from demo_set_checks obtain d' where s: "set_checks (\<lambda>_. False) admin_db 30 [9, 12, 12] False = Inr (d', 1, 1)" ..
  from set_checks_exact [OF this admin_db_wired] s show ?thesis by auto
qed

theorem sync_exact_witness:
  "get_check admin_db 9 \<noteq> None \<and> (\<exists>d'. sync_check_alerts admin_db 9 [31, 30] = Inr d' \<and>
     set (list_alert_ids_for_check d' 9) = {30, 31})"
proof -
  have "set [31, 30] \<subseteq> al_id ` set (alerts admin_db)" by (simp add: admin_db_def demo_watch_def)
  from sync_exact [OF _ this, of 9] show ?thesis by (auto simp: insert_commute)
qed

theorem snooze_capped_witness:
  "\<exists>d' t. snooze_alert_check admin_db 3 30 9 (100000) = Inr (d', t) \<and> t = 3 + MAX_SNOOZE \<and>
     \<not> is_snoozed d' (3 + MAX_SNOOZE) (demo_watch 30 False) demo_distributed"
proof -
  have "get_check_mapping admin_db 30 9 = Some ((new_mapping 30 9)\<lparr>am_snoozed_until := Some 5\<rparr>)"
    by (simp add: get_check_mapping_def demo_rows)
  then obtain d' t where s: "snooze_alert_check admin_db 3 (al_id (demo_watch 30 False)) (ck_id demo_distributed) 100000 = Inr (d', t)"
    and t: "t = 3 + MAX_SNOOZE"
    by (auto simp: snooze_alert_check_def demo_watch_def demo_distributed_def snooze_end_def MAX_SNOOZE_def MINUTE_def Let_def)
  from snooze_capped [OF s, of "3 + MAX_SNOOZE"] s t show ?thesis
    by (simp add: demo_watch_def demo_distributed_def)
qed

lemma demo_set_dependents: "\<exists>d'. set_dependents admin_db 9 [10, 11] False = Inr (d', 1, 0)"
  by (simp add: set_dependents_def parents_among_def list_dependents_def is_synthetic_def get_check_def Let_def demo_rows)

theorem set_dependents_exact_witness:
  "\<exists>d'. set_dependents admin_db 9 [10, 11] False = Inr (d', 1, 0) \<and> set (map ck_id (list_dependents d' 9)) = {10, 11}"
proof -
  from demo_set_dependents obtain d' where s: "set_dependents admin_db 9 [10, 11] False = Inr (d', 1, 0)" ..
  from set_dependents_exact [OF this admin_db_wired] s show ?thesis by auto
qed

theorem bulk_counts_add_up_witness:
  "success_count (snd (bulk_set_enabled admin_db 7 True [10, 11, 99] False False)) +
     failure_count (snd (bulk_set_enabled admin_db 7 True [10, 11, 99] False False)) = 3 \<and>
   success_count (snd (bulk_set_enabled admin_db 7 True [10, 11, 99] False False)) = 1"
proof -
  let ?r = "snd (bulk_set_enabled admin_db 7 True [10, 11, 99] False False)"
  have r: "?r = snd (bulk_set_enabled admin_db 7 True [10, 11, 99] False False) \<or>
      ?r = snd (bulk_delete admin_db 7 True [10, 11, 99] False)" by (rule disjI1) (rule refl)
  have "{c \<in> set [10, 11, 99]. get_check admin_db c \<noteq> None \<and> (False \<or> \<not> is_synthetic admin_db c)} = {11}"
    by (auto simp: is_synthetic_def get_check_def demo_rows)
  with bulk_counts_add_up [OF admin_db_wired _ r] show ?thesis by simp
qed

theorem clone_copies_alerts_witness:
  "\<exists>d'. clone_check demo_vetting admin_db 7 20 9 2 no_update False False = Inr d' \<and>
     get_check_mapping d' 30 20 = Some (new_mapping 30 20) \<and> get_check_mapping d' 31 20 = Some (new_mapping 31 20)"
proof -
  have "\<exists>d'. clone_check demo_vetting admin_db 7 20 9 2 no_update False False = Inr d'"
    by (simp add: clone_check_def create_check_def get_admitted_agent_def get_agent_by_id_def get_check_by_id_def
        validate_endpoints_ssrf_def endpoint_ok_def merge_clone_data_def set_field_def pick_field_def no_update_def
        stored_config_def dict_update_def text_of_def validate_dependency_def demo_vetting_def UNADMITTED_AGENT_STATUSES_def
        demo_agent_def get_check_def demo_rows)
  then obtain d' where c: "clone_check demo_vetting admin_db 7 20 9 2 no_update False False = Inr d'" ..
  have "20 \<notin> ck_id ` set (checks admin_db)" "\<forall>x. get_check_mapping admin_db x 20 = None"
    by (simp_all add: get_check_mapping_def demo_rows)
  note e = clone_copies_alerts [OF c admin_db_wired this]
  show ?thesis using c e [of 30 20] e [of 31 20]
    by (simp add: get_check_mapping_def list_global_enabled_alert_ids_def demo_rows)
qed

theorem dependency_race_witness:
  "validate_dependency admin_db (Some 12) (Some 11) = Inr () \<and> validate_dependency admin_db (Some 13) (Some 12) = Inr () \<and>
   \<not> single_level (set_parent 13 [12] [] (set_parent 12 [11] [] admin_db))"
  using dependency_race [OF admin_db_wired, of 11 12 13]
  by (simp add: list_dependents_def demo_distributed_def demo_script_def admin_db_def get_check_def)

end
