(* ===== verification/TriggerConfig.thy ===== *)
theory TriggerConfig
  imports CheckAdmin
begin

text \<open>
  The shape of an alert's trigger configuration (\<^verbatim>\<open>schemas/alert_trigger_config_schema.py\<close>). What
  pydantic does with the models declared there is written out: strict fields take no conversion but an
  integer for a float, unknown keys are refused, missing ones get their default, and the dump keeps the
  fields in order without the nulls. \<open>canonical\<close> parses a UUID text and prints it again; the other
  parameter is the largest number of missed intervals.
\<close>

type_synonym canonical = "string \<Rightarrow> string option"

section \<open>Field types\<close>

definition opt_list :: "('a \<Rightarrow> 'b option) \<Rightarrow> 'a list \<Rightarrow> 'b list option" where
  "opt_list f xs = (if \<forall>x\<in>set xs. f x \<noteq> None then Some (map (\<lambda>x. the (f x)) xs) else None)"

fun json_list :: "(json \<Rightarrow> json option) \<Rightarrow> nat \<Rightarrow> nat \<Rightarrow> json \<Rightarrow> json option" where
  "json_list f lo hi (JList xs) =
     (if lo \<le> length xs \<and> length xs \<le> hi then map_option JList (opt_list f xs) else None)"
| "json_list f lo hi _ = None"

fun strict_int :: "(int \<Rightarrow> bool) \<Rightarrow> json \<Rightarrow> json option" where
  "strict_int ok (JInt n) = (if ok n then Some (JInt n) else None)"
| "strict_int ok _ = None"

fun strict_float :: "json \<Rightarrow> json option" where
  "strict_float (JInt n) = Some (JFloat (of_int n))"
| "strict_float (JFloat q) = Some (JFloat q)"
| "strict_float _ = None"

fun literal :: "string list \<Rightarrow> json \<Rightarrow> json option" where
  "literal allowed (JStr s) = (if s \<in> set allowed then Some (JStr s) else None)"
| "literal allowed _ = None"

fun any_str :: "json \<Rightarrow> json option" where
  "any_str (JStr s) = Some (JStr s)"
| "any_str _ = None"

fun uuid_str :: "canonical \<Rightarrow> json \<Rightarrow> json option" where
  "uuid_str canonical (JStr s) = map_option JStr (canonical s)"
| "uuid_str canonical _ = None"

text \<open>A field: its name, its default if it has one, whether null is one of its values, and its type.
  A null is left out of the dump.\<close>

record field =
  f_name :: string
  f_default :: "json option"
  f_nullable :: bool
  f_type :: "json \<Rightarrow> json option"

definition dump_field :: "field \<Rightarrow> dict \<Rightarrow> dict option" where
  "dump_field f config =
     (case dict_get config (f_name f) of
        None \<Rightarrow> (if f_nullable f then Some [] else map_option (\<lambda>v. [(f_name f, v)]) (f_default f))
      | Some v \<Rightarrow>
          (if v = JNull \<and> f_nullable f then Some []
           else map_option (\<lambda>x. [(f_name f, x)]) (f_type f v)))"

definition model_validate :: "field list \<Rightarrow> dict \<Rightarrow> dict option" where
  "model_validate fs config =
     (if set (map fst config) \<subseteq> set (map f_name fs)
      then map_option concat (opt_list (\<lambda>f. dump_field f config) fs) else None)"

section \<open>The models\<close>

definition CHECK_TYPES :: "string list" where
  "CHECK_TYPES = [''http'', ''json'', ''tcp'', ''ping'', ''dns'', ''mysql'', ''postgres'', ''synthetic'']"

definition nullable :: "string \<Rightarrow> (json \<Rightarrow> json option) \<Rightarrow> field" where
  "nullable n t = \<lparr>f_name = n, f_default = None, f_nullable = True, f_type = t\<rparr>"

definition required :: "string \<Rightarrow> (json \<Rightarrow> json option) \<Rightarrow> field" where
  "required n t = \<lparr>f_name = n, f_default = None, f_nullable = False, f_type = t\<rparr>"

definition defaulted :: "string \<Rightarrow> json \<Rightarrow> (json \<Rightarrow> json option) \<Rightarrow> field" where
  "defaulted n d t = \<lparr>f_name = n, f_default = Some d, f_nullable = False, f_type = t\<rparr>"

definition CheckFilters :: "canonical \<Rightarrow> field list" where
  "CheckFilters canonical =
     [nullable ''agent_ids'' (json_list (uuid_str canonical) 0 1000),
      nullable ''check_types'' (json_list (literal CHECK_TYPES) 0 50),
      nullable ''check_names'' (json_list any_str 0 100),
      nullable ''tags'' (json_list any_str 0 100)]"

fun filters_type :: "canonical \<Rightarrow> json \<Rightarrow> json option" where
  "filters_type canonical (JDict d) = map_option JDict (model_validate (CheckFilters canonical) d)"
| "filters_type canonical _ = None"

definition check_filters :: "canonical \<Rightarrow> field" where
  "check_filters canonical = nullable ''check_filters'' (filters_type canonical)"

fun statuses :: "json \<Rightarrow> json option" where
  "statuses (JList xs) =
     (if 1 \<le> length xs then map_option JList (opt_list (literal [''error'', ''success'']) xs) else None)"
| "statuses _ = None"

definition StatusChangeConfig :: "canonical \<Rightarrow> field list" where
  "StatusChangeConfig canonical =
     [defaulted ''on_status'' (JList [JStr ''error'']) statuses,
      defaulted ''consecutive_failures'' (JInt 1) (strict_int (\<lambda>n. 1 \<le> n \<and> n \<le> 100)),
      check_filters canonical]"

definition ThresholdConfig :: "canonical \<Rightarrow> field list" where
  "ThresholdConfig canonical =
     [defaulted ''metric'' (JStr ''latency_ms'') (literal [''latency_ms'']),
      defaulted ''operator'' (JStr ''>'') (literal [''>'', ''>='', ''<'', ''<='', ''=='']),
      required ''value'' strict_float, check_filters canonical]"

definition SslCertExpiryConfig :: "canonical \<Rightarrow> field list" where
  "SslCertExpiryConfig canonical =
     [defaulted ''days_thresholds'' (JList [JInt 30]) (json_list (strict_int (\<lambda>_. True)) 1 10),
      check_filters canonical]"

definition SilenceConfig :: "canonical \<Rightarrow> field list" where
  "SilenceConfig canonical =
     [defaulted ''missed_intervals'' (JInt 3) (strict_int (\<lambda>n. 1 \<le> n \<and> n \<le> MAX_MISSED_INTERVALS)),
      check_filters canonical]"

fun model_of :: "canonical \<Rightarrow> AlertTriggerType \<Rightarrow> field list" where
  "model_of canonical STATUS_CHANGE = StatusChangeConfig canonical"
| "model_of canonical REPEATED_FAILURE = StatusChangeConfig canonical"
| "model_of canonical THRESHOLD = ThresholdConfig canonical"
| "model_of canonical SSL_CERT_EXPIRY = SslCertExpiryConfig canonical"
| "model_of canonical NO_DATA = SilenceConfig canonical"
| "model_of canonical AGENT_OFFLINE = SilenceConfig canonical"

text \<open>Certificate thresholds are held to a year.\<close>

definition days_in_range :: "dict \<Rightarrow> bool" where
  "days_in_range parsed =
     (case dict_get parsed ''days_thresholds'' of
        Some (JList xs) \<Rightarrow> \<forall>x\<in>set xs. (case x of JInt n \<Rightarrow> 1 \<le> n \<and> n \<le> 365 | _ \<Rightarrow> True)
      | _ \<Rightarrow> True)"

definition normalized_trigger_config :: "canonical \<Rightarrow> AlertTriggerType \<Rightarrow> dict \<Rightarrow> dict option" where
  "normalized_trigger_config canonical ty config =
     (case model_validate (model_of canonical ty) config of
        None \<Rightarrow> None
      | Some parsed \<Rightarrow> if ty = SSL_CERT_EXPIRY \<and> \<not> days_in_range parsed then None else Some parsed)"

section \<open>A normal form\<close>

lemma opt_list_Some: "opt_list f xs = Some ys \<longleftrightarrow> (\<forall>x\<in>set xs. f x \<noteq> None) \<and> ys = map (\<lambda>x. the (f x)) xs"
  by (auto simp: opt_list_def)

text \<open>A type settles its values: what it gives it takes unchanged, and it gives no null.\<close>

definition settles :: "(json \<Rightarrow> json option) \<Rightarrow> bool" where
  "settles t \<longleftrightarrow> (\<forall>v x. t v = Some x \<longrightarrow> t x = Some x \<and> x \<noteq> JNull)"

lemma opt_list_settled:
  assumes "settles t" "opt_list t xs = Some ys"
  shows "opt_list t ys = Some ys"
proof -
  have "t (the (t x)) = Some (the (t x))" if "x \<in> set xs" for x
    using assms that by (auto simp: settles_def opt_list_Some)
  then show ?thesis using assms(2) by (auto simp: opt_list_Some)
qed

lemma settles_list: "settles t \<Longrightarrow> settles (json_list t lo hi)"
  unfolding settles_def [of "json_list t lo hi"]
proof (intro allI impI)
  fix v x
  assume t: "settles t" and "json_list t lo hi v = Some x"
  then obtain xs ys where "v = JList xs" "lo \<le> length xs" "length xs \<le> hi" "opt_list t xs = Some ys" "x = JList ys"
    by (cases v) (auto split: if_splits)
  moreover from this(4) have "length ys = length xs" by (simp add: opt_list_Some)
  ultimately show "json_list t lo hi x = Some x \<and> x \<noteq> JNull" using opt_list_settled [OF t] by auto
qed

lemma settles_scalar:
  "settles (strict_int ok)" "settles strict_float" "settles (literal allowed)" "settles any_str"
proof -
  show "settles (strict_int ok)" unfolding settles_def
  proof (intro allI impI)
    fix v x assume "strict_int ok v = Some x"
    then show "strict_int ok x = Some x \<and> x \<noteq> JNull" by (cases v) (auto split: if_splits)
  qed
  show "settles strict_float" unfolding settles_def
  proof (intro allI impI)
    fix v x assume "strict_float v = Some x"
    then show "strict_float x = Some x \<and> x \<noteq> JNull" by (cases v) auto
  qed
  show "settles (literal allowed)" unfolding settles_def
  proof (intro allI impI)
    fix v x assume "literal allowed v = Some x"
    then show "literal allowed x = Some x \<and> x \<noteq> JNull" by (cases v) (auto split: if_splits)
  qed
  show "settles any_str" unfolding settles_def
  proof (intro allI impI)
    fix v x assume "any_str v = Some x"
    then show "any_str x = Some x \<and> x \<noteq> JNull" by (cases v) auto
  qed
qed

text \<open>Printing a UUID and parsing it again gives the same text.\<close>

definition canonical_ok :: "canonical \<Rightarrow> bool" where
  "canonical_ok canonical \<longleftrightarrow> (\<forall>s t. canonical s = Some t \<longrightarrow> canonical t = Some t)"

lemma settles_uuid: "canonical_ok canonical \<Longrightarrow> settles (uuid_str canonical)"
  unfolding settles_def
proof (intro allI impI)
  fix v x
  assume "canonical_ok canonical" "uuid_str canonical v = Some x"
  then show "uuid_str canonical x = Some x \<and> x \<noteq> JNull" by (cases v) (auto simp: canonical_ok_def)
qed

definition settled_field :: "field \<Rightarrow> bool" where
  "settled_field f \<longleftrightarrow> settles (f_type f) \<and> (\<forall>d. f_default f = Some d \<longrightarrow> f_type f d = Some d \<and> d \<noteq> JNull)"

lemma dump_field_cases:
  assumes "dump_field f config = Some kv"
  shows "kv = [] \<and> f_nullable f \<or> (\<exists>x. kv = [(f_name f, x)] \<and> (settled_field f \<longrightarrow> f_type f x = Some x \<and> x \<noteq> JNull))"
  using assms
  by (auto simp: dump_field_def settled_field_def settles_def split: option.splits if_splits)

lemma get_concat:
  assumes "distinct (map f_name fs)" "\<And>f. f \<in> set fs \<Longrightarrow> fst ` set (g f) \<subseteq> {f_name f}" "f \<in> set fs"
  shows "dict_get (concat (map g fs)) (f_name f) = dict_get (g f) (f_name f)"
  using assms
proof (induction fs)
  case (Cons h fs)
  have other: "dict_get (concat (map g fs)) (f_name h) = None"
    using Cons.prems(1,2) by (auto simp: map_of_eq_None_iff)
  show ?case
  proof (cases "f = h")
    case True
    with other show ?thesis by (simp add: map_add_def split: option.split)
  next
    case False
    then have f: "f \<in> set fs" using Cons.prems(3) by simp
    then have "f_name f \<noteq> f_name h" using Cons.prems(1) by (metis distinct.simps(2) image_eqI list.simps(9) set_map)
    then have none: "dict_get (g h) (f_name f) = None"
      using Cons.prems(2) [of h] by (auto simp: map_of_eq_None_iff)
    have "dict_get (concat (map g fs)) (f_name f) = dict_get (g f) (f_name f)"
      using Cons.prems(1,2) by (intro Cons.IH f) simp_all
    with none show ?thesis by (simp add: map_add_def split: option.split)
  qed
qed simp

lemma model_validate_settled:
  assumes d: "distinct (map f_name fs)" and s: "\<forall>f\<in>set fs. settled_field f"
    and v: "model_validate fs config = Some parsed"
  shows "model_validate fs parsed = Some parsed"
proof -
  let ?g = "\<lambda>f. the (dump_field f config)"
  from v have ok: "\<forall>f\<in>set fs. dump_field f config \<noteq> None" and p: "parsed = concat (map ?g fs)"
    by (auto simp: model_validate_def opt_list_Some split: if_splits)
  have shape: "?g f = [] \<and> f_nullable f \<or> (\<exists>x. ?g f = [(f_name f, x)] \<and> f_type f x = Some x \<and> x \<noteq> JNull)"
    if "f \<in> set fs" for f
    using dump_field_cases [of f config "?g f"] ok s that by fastforce
  have key: "fst ` set (?g f) \<subseteq> {f_name f}" if "f \<in> set fs" for f using shape [OF that] by auto
  have "dump_field f parsed = Some (?g f)" if "f \<in> set fs" for f
    using shape [OF that]
  proof
    assume "?g f = [] \<and> f_nullable f"
    moreover from this have "dict_get parsed (f_name f) = None" using get_concat [OF d key that] by (simp add: p)
    ultimately show ?thesis by (simp add: dump_field_def [of f parsed])
  next
    assume "\<exists>x. ?g f = [(f_name f, x)] \<and> f_type f x = Some x \<and> x \<noteq> JNull"
    then obtain x where x: "?g f = [(f_name f, x)]" "f_type f x = Some x" "x \<noteq> JNull" by blast
    then have "dict_get parsed (f_name f) = Some x" using get_concat [OF d key that] by (simp add: p)
    with x show ?thesis by (simp add: dump_field_def [of f parsed])
  qed
  then have "opt_list (\<lambda>f. dump_field f parsed) fs = Some (map ?g fs)" by (simp add: opt_list_Some)
  moreover have "set (map fst parsed) \<subseteq> set (map f_name fs)" using key by (fastforce simp: p)
  ultimately show ?thesis by (simp add: model_validate_def p)
qed

lemma settled_nullable: "settles t \<Longrightarrow> settled_field (nullable n t)"
  and settled_required: "settles t \<Longrightarrow> settled_field (required n t)"
  and settled_defaulted: "settles t \<Longrightarrow> t d = Some d \<Longrightarrow> settled_field (defaulted n d t)"
  by (auto simp: settled_field_def nullable_def required_def defaulted_def settles_def)

lemma settles_filters:
  assumes "canonical_ok canonical"
  shows "settles (filters_type canonical)"
proof -
  have "distinct (map f_name (CheckFilters canonical))" by (simp add: CheckFilters_def nullable_def)
  moreover have "\<forall>f\<in>set (CheckFilters canonical). settled_field f"
    using assms by (auto simp: CheckFilters_def intro!: settled_nullable settles_list settles_scalar settles_uuid)
  ultimately have m: "model_validate (CheckFilters canonical) d = Some p \<Longrightarrow> model_validate (CheckFilters canonical) p = Some p" for d p
    by (rule model_validate_settled)
  show ?thesis unfolding settles_def
  proof (intro allI impI)
    fix v x assume "filters_type canonical v = Some x"
    then show "filters_type canonical x = Some x \<and> x \<noteq> JNull" by (cases v) (auto dest: m)
  qed
qed

lemma settles_statuses: "settles statuses"
  unfolding settles_def
proof (intro allI impI)
  fix v x assume "statuses v = Some x"
  then obtain xs ys where "1 \<le> length xs" "opt_list (literal [''error'', ''success'']) xs = Some ys" "x = JList ys"
    by (cases v) (auto split: if_splits)
  moreover from this(2) have "length ys = length xs" by (simp add: opt_list_Some)
  ultimately show "statuses x = Some x \<and> x \<noteq> JNull" using opt_list_settled [OF settles_scalar(3)] by auto
qed

lemma field_names [simp]:
  "f_name (nullable n t) = n" "f_name (required n t) = n" "f_name (defaulted n d t) = n"
  by (simp_all add: nullable_def required_def defaulted_def)

lemmas model_defs = StatusChangeConfig_def ThresholdConfig_def SslCertExpiryConfig_def SilenceConfig_def check_filters_def

lemma models_settled:
  assumes "canonical_ok canonical"
  shows "distinct (map f_name (model_of canonical ty))" "\<forall>f\<in>set (model_of canonical ty). settled_field f"
proof -
  show "distinct (map f_name (model_of canonical ty))" by (cases ty) (simp_all add: model_defs)
  show "\<forall>f\<in>set (model_of canonical ty). settled_field f"
    using settles_filters [OF assms]
    by (cases ty) (auto simp: model_defs opt_list_def MAX_MISSED_INTERVALS_def
        intro!: settled_nullable settled_defaulted settled_required settles_statuses settles_list settles_scalar)
qed

lemma normalized_settled:
  assumes "canonical_ok canonical" "normalized_trigger_config canonical ty config = Some stored"
  shows "normalized_trigger_config canonical ty stored = Some stored"
  using model_validate_settled [OF models_settled [OF assms(1)], of ty config] assms(2)
  by (auto simp: normalized_trigger_config_def split: option.splits if_splits)

text \<open>C30: The stored form of a trigger configuration is a normal form: normalising it again, for the same
  trigger type, accepts it and gives it back unchanged.\<close>

theorem normalized_again:
  assumes "canonical_ok canonical" "normalized_trigger_config canonical ty config = Some stored"
  shows "normalized_trigger_config canonical ty stored = Some stored"
  by (rule normalized_settled [OF assms])

section \<open>What evaluation reads\<close>

lemma stored_field:
  assumes "distinct (map f_name fs)" "\<forall>f\<in>set fs. settled_field f" "model_validate fs stored = Some stored"
    and "f \<in> set fs" "\<not> f_nullable f"
  shows "\<exists>x. dict_get stored (f_name f) = Some x \<and> f_type f x = Some x"
proof -
  let ?g = "\<lambda>f. the (dump_field f stored)"
  from assms(3) have ok: "\<forall>f\<in>set fs. dump_field f stored \<noteq> None" and p: "stored = concat (map ?g fs)"
    by (auto simp: model_validate_def opt_list_Some split: if_splits)
  have shape: "?g f = [] \<and> f_nullable f \<or> (\<exists>x. ?g f = [(f_name f, x)] \<and> f_type f x = Some x)" if "f \<in> set fs" for f
    using dump_field_cases [of f stored "?g f"] ok assms(2) that by fastforce
  have key: "fst ` set (?g f) \<subseteq> {f_name f}" if "f \<in> set fs" for f using shape [OF that] by auto
  from shape [OF assms(4)] assms(5) obtain x where x: "?g f = [(f_name f, x)]" "f_type f x = Some x" by blast
  have "dict_get (concat (map ?g fs)) (f_name f) = dict_get (?g f) (f_name f)"
    by (rule get_concat [OF assms(1) key assms(4)])
  with p x show ?thesis by auto
qed

lemma stored_defaulted:
  assumes "canonical_ok canonical" "normalized_trigger_config canonical ty stored = Some stored"
    and "defaulted n d t \<in> set (model_of canonical ty)"
  shows "\<exists>x. dict_get stored n = Some x \<and> t x = Some x"
proof -
  have "model_validate (model_of canonical ty) stored = Some stored"
    using assms(2) by (auto simp: normalized_trigger_config_def split: option.splits if_splits)
  from stored_field [OF models_settled [OF assms(1)] this assms(3)] show ?thesis by (simp add: defaulted_def)
qed

text \<open>The shape of a result's metrics that the server's own certificate summary gives: where there is a
  certificate, its days until expiry are a number or unknown.\<close>

fun days_ok :: "json \<Rightarrow> bool" where
  "days_ok (JDict cert) = (case dict_get cert ''days_until_expiration'' of None \<Rightarrow> True | Some x \<Rightarrow> x = JNull \<or> py_num x \<noteq> None)"
| "days_ok v = (v = JNull)"

fun response_ok :: "json \<Rightarrow> bool" where
  "response_ok (JDict resp) = (case dict_get resp ''ssl_certificate'' of None \<Rightarrow> True | Some c \<Rightarrow> days_ok c)"
| "response_ok _ = False"

fun metrics_ok :: "json \<Rightarrow> bool" where
  "metrics_ok (JDict m) = (case dict_get m ''response'' of None \<Rightarrow> True | Some r \<Rightarrow> response_ok r)"
| "metrics_ok v = (v = JNull)"

lemma statuses_list: "statuses v = Some x \<Longrightarrow> \<exists>xs. v = JList xs"
  by (cases v) auto

lemma strict_ints:
  assumes "json_list (strict_int ok) lo hi v = Some x"
  shows "\<exists>xs. v = JList xs \<and> lo \<le> length xs \<and> (\<forall>y\<in>set xs. \<exists>n. y = JInt n)"
proof -
  from assms obtain xs where "v = JList xs" "lo \<le> length xs" "\<forall>y\<in>set xs. strict_int ok y \<noteq> None"
    by (cases v) (auto simp: opt_list_def split: if_splits)
  moreover have "strict_int ok y \<noteq> None \<Longrightarrow> \<exists>n. y = JInt n" for y by (cases y) auto
  ultimately show ?thesis by blast
qed

lemma status_total:
  assumes "dict_get config ''on_status'' = Some (JList xs)" "dict_get config ''consecutive_failures'' = Some (JInt n)"
  shows "\<not> isl (evaluate_status_change d alert check r config)"
  using assms by (auto simp: evaluate_status_change_def dict_get_or_def Let_def)

lemma sorted_ints:
  assumes "xs \<noteq> []" "\<forall>y\<in>set xs. \<exists>n. y = JInt n"
  shows "\<exists>ys. py_sorted (JList xs) = Inr ys \<and> ys \<noteq> [] \<and> (\<forall>y\<in>set ys. \<exists>n. y = JInt n)"
proof -
  have "\<forall>x\<in>set xs. py_num x \<noteq> None" using assms(2) by auto
  then show ?thesis using assms by (auto simp: py_sorted_def) (metis set_empty set_sort)
qed

lemma ssl_band_total:
  "py_num days \<noteq> None \<Longrightarrow> \<forall>y\<in>set ts. \<exists>n. y = JInt n \<Longrightarrow> \<not> isl (ssl_band L days ts)"
  by (induction ts) (auto simp: py_le_def split: if_splits)

lemma certificate_cases:
  assumes "metrics_ok m" "m \<noteq> JNull"
  obtains cert where "ssl_certificate m = Inr cert" "days_ok cert"
proof -
  from assms obtain md where m: "m = JDict md" by (cases m) auto
  show ?thesis
  proof (cases "dict_get md ''response''")
    case None
    then show ?thesis by (intro that [of JNull]) (simp_all add: m ssl_certificate_def)
  next
    case (Some resp)
    with assms(1) m obtain rd where resp: "resp = JDict rd" by (cases resp) auto
    show ?thesis
      using assms(1) Some resp m
      by (intro that [of "case dict_get rd ''ssl_certificate'' of None \<Rightarrow> JNull | Some c \<Rightarrow> c"])
        (auto simp: ssl_certificate_def split: option.splits)
  qed
qed

lemma ssl_total:
  assumes "dict_get (al_trigger_config alert) ''days_thresholds'' = Some (JList xs)" "xs \<noteq> []" "\<forall>y\<in>set xs. \<exists>n. y = JInt n"
    and m: "metrics_ok (cr_metrics r)"
  shows "\<not> isl (evaluate_ssl_cert_expiry d alert check r (al_trigger_config alert))"
    and "al_trigger_type alert = SSL_CERT_EXPIRY \<Longrightarrow> \<not> isl (state_key L alert r pd)"
proof -
  let ?m = "cr_metrics r"
  have dt: "days_thresholds (al_trigger_config alert) = JList xs"
    using assms(1,2) by (simp add: days_thresholds_def dict_get_or_def Let_def)
  obtain ys where ys: "py_sorted (JList xs) = Inr ys" "ys \<noteq> []" "\<forall>y\<in>set ys. \<exists>n. y = JInt n"
    using sorted_ints [OF assms(2,3)] by blast
  then obtain n where n: "last ys = JInt n" by (meson last_in_set)
  have days: "\<exists>days. py_get (or_empty cert) ''days_until_expiration'' JNull = Inr days \<and> (days = JNull \<or> py_num days \<noteq> None) \<and>
      (py_truthy cert \<longrightarrow> py_get cert ''days_until_expiration'' JNull = Inr days)" if "days_ok cert" for cert
    using that by (cases cert) (auto simp: or_empty_def split: option.splits)
  show "\<not> isl (evaluate_ssl_cert_expiry d alert check r (al_trigger_config alert))"
  proof (cases "py_truthy ?m")
    case True
    then have "?m \<noteq> JNull" by auto
    then obtain cert where c: "ssl_certificate ?m = Inr cert" "days_ok cert" using certificate_cases [OF m] by blast
    from days [OF c(2)] c True ys n show ?thesis
      by (cases "py_truthy cert")
        (auto simp: evaluate_ssl_cert_expiry_def dt py_max_def py_le_def split: option.splits if_splits)
  qed (simp add: evaluate_ssl_cert_expiry_def)
  assume ty: "al_trigger_type alert = SSL_CERT_EXPIRY"
  have "metrics_ok (or_empty ?m)" "or_empty ?m \<noteq> JNull" using m by (auto simp: or_empty_def)
  then obtain cert where c: "ssl_certificate (or_empty ?m) = Inr cert" "days_ok cert" using certificate_cases by blast
  from days [OF c(2)] obtain dy where "py_get (or_empty cert) ''days_until_expiration'' JNull = Inr dy" "dy = JNull \<or> py_num dy \<noteq> None"
    by blast
  with c ys ssl_band_total [of dy ys L] show "\<not> isl (state_key L alert r pd)"
    by (auto simp: state_key_def ty dt Let_def)
qed

lemma evaluation_total:
  assumes c: "canonical_ok canonical"
    and n: "normalized_trigger_config canonical (al_trigger_type alert) (al_trigger_config alert) = Some (al_trigger_config alert)"
    and m: "metrics_ok (cr_metrics r)"
  shows "\<not> isl (should_fire_alert pf d alert check r) \<and> \<not> isl (compute_alert_state_key L alert r pd)"
proof -
  note get = stored_defaulted [OF c n]
  have sc: "\<not> isl (evaluate_status_change d alert check r (al_trigger_config alert))"
    if "model_of canonical (al_trigger_type alert) = StatusChangeConfig canonical"
  proof -
    have "\<exists>v. dict_get (al_trigger_config alert) ''on_status'' = Some v \<and> statuses v = Some v"
      by (rule get [where d = "JList [JStr ''error'']"]) (simp add: that StatusChangeConfig_def)
    moreover have "\<exists>w. dict_get (al_trigger_config alert) ''consecutive_failures'' = Some w \<and> strict_int (\<lambda>n. 1 \<le> n \<and> n \<le> 100) w = Some w"
      by (rule get [where d = "JInt 1"]) (simp add: that StatusChangeConfig_def)
    ultimately obtain v w
      where "dict_get (al_trigger_config alert) ''on_status'' = Some v" "statuses v = Some v"
        "dict_get (al_trigger_config alert) ''consecutive_failures'' = Some w" "strict_int (\<lambda>n. 1 \<le> n \<and> n \<le> 100) w = Some w"
      by blast
    moreover from this(4) obtain k where "w = JInt k" by (cases w) auto
    moreover from statuses_list [OF calculation(2)] obtain xs where "v = JList xs" ..
    ultimately show ?thesis by (intro status_total) simp_all
  qed
  have ssl: "\<exists>xs. dict_get (al_trigger_config alert) ''days_thresholds'' = Some (JList xs) \<and> xs \<noteq> [] \<and> (\<forall>y\<in>set xs. \<exists>n. y = JInt n)"
    if "al_trigger_type alert = SSL_CERT_EXPIRY"
  proof -
    have "\<exists>v. dict_get (al_trigger_config alert) ''days_thresholds'' = Some v \<and> json_list (strict_int (\<lambda>_. True)) 1 10 v = Some v"
      by (rule get [where d = "JList [JInt 30]"]) (simp add: that SslCertExpiryConfig_def)
    then obtain v where "dict_get (al_trigger_config alert) ''days_thresholds'' = Some v"
      "json_list (strict_int (\<lambda>_. True)) 1 10 v = Some v" by blast
    with strict_ints [OF this(2)] show ?thesis by fastforce
  qed
  have "\<not> isl (state_key L alert r pd)"
  proof (cases "al_trigger_type alert = SSL_CERT_EXPIRY")
    case True
    then show ?thesis using ssl ssl_total(2) [OF _ _ _ m] by blast
  qed (cases "al_trigger_type alert", simp_all add: state_key_def Let_def)
  then have "\<not> isl (compute_alert_state_key L alert r pd)" by (cases "state_key L alert r pd") (simp_all add: compute_alert_state_key_def)
  moreover have "\<not> isl (should_fire_alert pf d alert check r)"
    using sc ssl ssl_total(1) [OF _ _ _ m, of alert]
    by (cases "al_trigger_type alert") (auto simp: should_fire_alert_def evaluate_repeated_failure_def)
  ultimately show ?thesis by blast
qed

section \<open>Stored configurations\<close>

definition all_normal :: "canonical \<Rightarrow> db \<Rightarrow> bool" where
  "all_normal canonical d \<longleftrightarrow> (\<forall>a\<in>set (alerts d).
     normalized_trigger_config canonical (al_trigger_type a) (al_trigger_config a) = Some (al_trigger_config a))"

text \<open>Operations on checks leave the alerts alone.\<close>

lemma alerts_add_check: "add_check d aid cid = Inr d' \<Longrightarrow> alerts d' = alerts d"
  by (auto simp: add_check_def split: option.splits if_splits)

lemma alerts_add_checks: "add_checks d aids cid = Inr d' \<Longrightarrow> alerts d' = alerts d"
  by (induction d aids cid rule: add_checks.induct) (auto simp: res_bind_Inr_iff dest: alerts_add_check)

lemma alerts_sync: "sync_check_alerts d cid aids = Inr d' \<Longrightarrow> alerts d' = alerts d"
  using removed_mappings by (auto simp: sync_check_alerts_def Let_def dest!: alerts_add_checks)

lemma alerts_bulk_assign: "bulk_assign r d aid cids = Inr d' \<Longrightarrow> alerts d' = alerts d"
  by (induction r d aid cids rule: bulk_assign.induct)
    (auto simp: Let_def res_bind_Inr_iff split: if_splits dest: alerts_sync)

lemma alerts_bulk_clear: "bulk_clear_from_checks d cids = Inr d' \<Longrightarrow> alerts d' = alerts d"
  by (induction d cids rule: bulk_clear_from_checks.induct) (auto simp: res_bind_Inr_iff dest: alerts_sync)

lemma alerts_copy: "alerts (copy_check_mappings d src tgt) = alerts d"
proof -
  have "alerts (foldl (copy_mapping held tgt) d ms) = alerts d" for held ms
    by (induction ms arbitrary: d) (simp_all add: copy_mapping_def update_mapping_def Let_def)
  then show ?thesis by (simp add: copy_check_mappings_def Let_def)
qed

lemma alerts_assign_each: "alerts (assign_each d cid aids) = alerts d"
  by (induction d cid aids rule: assign_each.induct) (auto split: sum.split dest: alerts_add_check)

lemma alerts_rows [simp]:
  "alerts (touch_agents aids now d) = alerts d" "alerts (put_check c d) = alerts d" "alerts (drop_checks ids d) = alerts d"
  "alerts (set_parent p xs ys d) = alerts d" "alerts (update_mapping aid cid g d) = alerts d"
  "alerts (assign_global_alerts_to_check d cid) = alerts d"
  by (simp_all add: touch_agents_def put_check_def drop_checks_def set_parent_def update_mapping_def
      assign_global_alerts_to_check_def)

lemma alerts_update: "update_check v d now cid u adm = (e, d') \<Longrightarrow> alerts d' = alerts d"
  by (erule update_check_cases) simp_all

lemma alerts_create: "create_check v d now cid aid data skip adm = Inr d' \<Longrightarrow> alerts d' = alerts d"
  by (erule create_check_cases) (simp add: Let_def)

lemma alerts_bulk_modify:
  assumes "bulk_modify v d now cids u na adm = (d', r)"
  shows "alerts d' = alerts d"
proof (rule bulk_modify_keeps [where P = "\<lambda>x. alerts x = alerts d", OF _ _ refl assms])
  fix d1 target cid e d2 ts
  assume "alerts d1 = alerts d" "modify_one v now u na target adm d1 cid = (e, d2, ts)"
  then show "alerts d2 = alerts d" by (elim modify_one_cases) (auto dest: alerts_update)
qed simp

lemma alerts_bulk_check_modify: "bulk_check_modify v d now cids u na choice adm = Inr d' \<Longrightarrow> alerts d' = alerts d"
  by (erule bulk_check_modify_cases)
    (auto simp: bulk_assign_to_checks_def res_bind_Inr_iff
      dest!: alerts_bulk_modify alerts_bulk_clear alerts_bulk_assign)

lemma normal_put:
  "all_normal canonical d \<Longrightarrow>
   normalized_trigger_config canonical (al_trigger_type a) (al_trigger_config a) = Some (al_trigger_config a) \<Longrightarrow>
   all_normal canonical (put_alert a d)"
  by (auto simp: all_normal_def put_alert_def)

lemma step_keeps_normal:
  assumes c: "canonical_ok canonical" and s: "config_step (normalized_trigger_config canonical) v adm d d'"
    and n: "all_normal canonical d"
  shows "all_normal canonical d'"
proof -
  have again: "normalized_trigger_config canonical ty y = Some y" if "valid_trigger_config (normalized_trigger_config canonical) ty x = Inr y"
    for ty x y
    using that normalized_settled [OF c] by (auto simp: valid_trigger_config_def split: option.splits)
  have same: "all_normal canonical d'" if "alerts d' = alerts d" using n that by (simp add: all_normal_def)
  from s show ?thesis
  proof cases
    case (cs_new_alert busy aid data)
    then show ?thesis
      using n by (auto simp: admin_create_alert_def create_alert_def add_alert_def res_bind_Inr_iff all_normal_def
          dest!: again split: if_splits)
  next
    case (cs_alert aid u)
    then obtain a where a: "get_alert_by_id d aid = Inr a" by (auto simp: update_alert_def res_bind_Inr_iff)
    then have "normalized_trigger_config canonical (al_trigger_type a) (al_trigger_config a) = Some (al_trigger_config a)"
      using n by (auto simp: get_alert_by_id_def all_normal_def find_Some_iff split: option.splits)
    with cs_alert a n show ?thesis
      by (auto simp: update_alert_def Let_def res_bind_Inr_iff set_field_def intro!: normal_put split: if_splits dest!: again)
  next
    case (cs_no_alert now aid hard)
    then obtain a where a: "get_alert_by_id d aid = Inr a" by (auto simp: delete_alert_def res_bind_Inr_iff)
    then have "normalized_trigger_config canonical (al_trigger_type a) (al_trigger_config a) = Some (al_trigger_config a)"
      using n by (auto simp: get_alert_by_id_def all_normal_def find_Some_iff split: option.splits)
    moreover have "d' = put_alert (a\<lparr>al_deleted_at := Some now\<rparr>) d \<or> set (alerts d') \<subseteq> set (alerts d)"
      using cs_no_alert a by (auto simp: delete_alert_def split: if_splits)
    ultimately show ?thesis using n by (auto intro!: normal_put) (auto simp: all_normal_def)
  next
    case (cs_dependents pid cids n)
    obtain x y where n: "n = (x, y)" by force
    show ?thesis
      by (rule set_dependents_cases [OF cs_dependents [unfolded n]]) (intro same, simp)
  next
    case (cs_checks busy aid cids n)
    then show ?thesis by (intro same) (auto simp: set_checks_def replace_check_mappings_def Let_def res_bind_Inr_iff)
  next
    case (cs_providers aid pids n)
    then show ?thesis
      by (intro same) (auto simp: set_providers_def replace_provider_mappings_def Let_def res_bind_Inr_iff split: if_splits)
  next
    case (cs_create now cid aid data aids)
    then show ?thesis
      by (intro same) (auto simp: create_check_with_alerts_def assign_alerts_def alerts_assign_each res_bind_Inr_iff
          dest!: alerts_create)
  next
    case (cs_clone now cid src aid u aids)
    then show ?thesis
      by (intro same) (auto simp: clone_check_with_alerts_def clone_check_def alerts_copy res_bind_Inr_iff
          dest!: alerts_create alerts_sync)
  next
    case (cs_update now cid u aids)
    then obtain d1 where "update_check v d now cid u adm = (None, d1)" "alerts d' = alerts d1"
      by (auto simp: update_check_with_alerts_def res_bind_Inr_iff committed_def
          split: prod.splits option.splits dest: alerts_sync)
    then show ?thesis by (intro same) (auto dest: alerts_update)
  next
    case (cs_delete now cid)
    then show ?thesis by (intro same) (auto simp: delete_check_def res_bind_Inr_iff)
  next
    case (cs_enable now ok cids b r)
    then show ?thesis by (intro same) (auto elim!: bulk_set_enabled_cases)
  next
    case (cs_bulk_delete now ok cids r)
    then show ?thesis by (intro same) (auto elim!: bulk_delete_cases)
  next
    case (cs_modify now cids u na choice)
    then show ?thesis by (intro same alerts_bulk_check_modify)
  next
    case (cs_snooze now aid cid m t)
    then show ?thesis by (intro same) (auto simp: snooze_alert_check_def split: option.splits)
  next
    case (cs_unsnooze aid cid)
    then show ?thesis by (intro same) (auto simp: unsnooze_alert_check_def split: option.splits)
  qed
qed

interpretation normal: keeper "\<lambda>d. canonical_ok canonical \<and> all_normal canonical d"
    "any_step (normalized_trigger_config canonical) v" for canonical v
  by unfold_locales (auto intro: step_keeps_normal)

text \<open>C29: Stored configurations are type-safe. Start from alerts whose configurations are in normal form
  and let any requests and jobs change the configuration: for every alert then stored, judging a result
  and computing its state key raise no error, whatever the database holds, as long as the result's
  certificate summary (if any) has a number of days.\<close>

theorem stored_configs_never_raise:
  assumes "canonical_ok canonical" "all_normal canonical d"
    and "(any_step (normalized_trigger_config canonical) v)\<^sup>*\<^sup>* d d'" "alert \<in> set (alerts d')" "metrics_ok (cr_metrics r)"
  shows "\<not> isl (should_fire_alert pf db alert check r) \<and> \<not> isl (compute_alert_state_key L alert r parent_down)"
proof -
  from normal.run_keeps [OF assms(3)] assms(1,2) have "all_normal canonical d'" by simp
  with assms(1,4,5) show ?thesis by (intro evaluation_total) (auto simp: all_normal_def)
qed

section \<open>At work\<close>

text \<open>One UUID text, written in upper or lower case, is enough to see the normal form at work.\<close>

definition demo_canonical :: canonical where
  "demo_canonical s = (if s = ''AB'' \<or> s = ''ab'' then Some ''ab'' else None)"

lemma demo_canonical_ok [simp]: "canonical_ok demo_canonical"
  by (auto simp: canonical_ok_def demo_canonical_def split: if_splits)

theorem normalized_again_witness:
  "normalized_trigger_config demo_canonical THRESHOLD [(''value'', JInt 250), (''check_filters'', JDict [(''agent_ids'', JList [JStr ''AB''])])] =
     Some [(''metric'', JStr ''latency_ms''), (''operator'', JStr ''>''), (''value'', JFloat 250),
       (''check_filters'', JDict [(''agent_ids'', JList [JStr ''ab''])])] \<and>
   normalized_trigger_config demo_canonical THRESHOLD [(''metric'', JStr ''latency_ms''), (''operator'', JStr ''>''),
       (''value'', JFloat 250), (''check_filters'', JDict [(''agent_ids'', JList [JStr ''ab''])])] =
     Some [(''metric'', JStr ''latency_ms''), (''operator'', JStr ''>''), (''value'', JFloat 250),
       (''check_filters'', JDict [(''agent_ids'', JList [JStr ''ab''])])]"
proof -
  have "normalized_trigger_config demo_canonical THRESHOLD [(''value'', JInt 250), (''check_filters'', JDict [(''agent_ids'', JList [JStr ''AB''])])] =
     Some [(''metric'', JStr ''latency_ms''), (''operator'', JStr ''>''), (''value'', JFloat 250),
       (''check_filters'', JDict [(''agent_ids'', JList [JStr ''ab''])])]"
    by (simp add: normalized_trigger_config_def model_validate_def ThresholdConfig_def check_filters_def CheckFilters_def
        dump_field_def defaulted_def required_def nullable_def opt_list_def demo_canonical_def)
  from this normalized_again [OF demo_canonical_ok this] show ?thesis by (rule conjI)
qed

definition stored_watch :: Alert where
  "stored_watch = (demo_watch 30 False)\<lparr>al_trigger_config :=
     [(''on_status'', JList [JStr ''error'']), (''consecutive_failures'', JInt 2)]\<rparr>"

definition stored_db :: db where
  "stored_db = admin_db\<lparr>alerts := [stored_watch]\<rparr>"

lemma stored_db_normal: "all_normal demo_canonical stored_db"
  by (simp add: all_normal_def stored_db_def stored_watch_def demo_watch_def normalized_trigger_config_def
      model_validate_def StatusChangeConfig_def check_filters_def dump_field_def defaulted_def nullable_def opt_list_def)

theorem stored_configs_never_raise_witness:
  "\<not> isl (should_fire_alert (\<lambda>_. None) stored_db stored_watch demo_distributed
      \<lparr>cr_id = 1, cr_agent_id = 2, cr_check_id = 9, cr_timestamp = 0, cr_success = False, cr_latency_ms = None, cr_metrics = JNull\<rparr>) \<and>
   \<not> isl (compute_alert_state_key \<lparr>py_repr = (\<lambda>_. []), sha256_hex = (\<lambda>s. s)\<rparr> stored_watch
      \<lparr>cr_id = 1, cr_agent_id = 2, cr_check_id = 9, cr_timestamp = 0, cr_success = False, cr_latency_ms = None, cr_metrics = JNull\<rparr> False)"
  by (rule stored_configs_never_raise [OF demo_canonical_ok stored_db_normal rtranclp.rtrancl_refl])
    (simp_all add: stored_db_def)

end
