(* ===== verification/Jobs.thy ===== *)
theory Jobs
  imports Assignment
begin

text \<open>
  Jobs on the server (\<^verbatim>\<open>services/core/job_core_service.py\<close>, \<^verbatim>\<open>crud/job_crud.py\<close>,
  \<^verbatim>\<open>models/job_model.py\<close>, \<^verbatim>\<open>services/core/admin_job_core_service.py\<close>): a job is created for an
  agent, handed out with the agent's next heartbeat, reported started and finished by the agent,
  cancelled or deleted by a user and purged once it has expired. A job moves only forward
  (pending, assigned, running, finished), is handed out at most once and a finished one keeps its
  state, as long as each request is served by itself; a hand-out that interleaves with a
  cancellation is shown to undo it.

  Rows of equal rank come in table order. Parameters: the schemas of the job parameters, the
  enrichment of results and the settings.
\<close>

section \<open>Job rows\<close>

datatype JobStatus = J_PENDING | J_ASSIGNED | J_RUNNING | J_COMPLETED | J_FAILED | J_CANCELLED

datatype JobType = NETWORK_SCAN | NETWORK_DISCOVER

record Job =
  jb_id :: uuid
  jb_type :: JobType
  jb_agent_id :: "uuid option"
  jb_params :: dict
  jb_status :: JobStatus
  jb_priority :: int
  jb_created_at :: instant
  jb_assigned_at :: "instant option"
  jb_started_at :: "instant option"
  jb_completed_at :: "instant option"
  jb_expires_at :: "instant option"
  jb_result :: "dict option"
  jb_error :: "string option"
  jb_created_by :: "string option"
  jb_tags :: "string list option"
  jb_schedule :: "dict option"
  jb_automation_config :: "dict option"

record JobCreate =
  jc_type :: JobType
  jc_agent_id :: "uuid option"
  jc_params :: dict
  jc_priority :: int
  jc_tags :: "string list option"
  jc_schedule :: "dict option"
  jc_automation_config :: "dict option"

record JobResultSubmit =
  jr_status :: JobStatus
  jr_result :: "dict option"
  jr_error :: "string option"

record JobDispatch =
  jd_job_id :: uuid
  jd_type :: JobType
  jd_params :: dict
  jd_priority :: int
  jd_timeout_seconds :: int

record job_world =
  params_schema :: "JobType \<Rightarrow> dict \<Rightarrow> dict option"
  enrich_job_result :: "JobType \<Rightarrow> dict \<Rightarrow> py_error + dict"
  job_timeout_setting :: "JobType \<Rightarrow> int"
  job_retention_days :: int
  job_max_dispatch_per_heartbeat :: nat

fun requires_agent :: "JobType \<Rightarrow> bool" where
  "requires_agent NETWORK_SCAN = True"
| "requires_agent NETWORK_DISCOVER = True"

definition FINISHED :: "JobStatus list" where "FINISHED = [J_COMPLETED, J_FAILED, J_CANCELLED]"

definition is_terminal :: "Job \<Rightarrow> bool" where
  "is_terminal j \<longleftrightarrow> jb_status j \<in> set FINISHED"

definition assign :: "instant \<Rightarrow> Job \<Rightarrow> Job" where
  "assign now j = j\<lparr>jb_status := J_ASSIGNED, jb_assigned_at := Some now\<rparr>"

definition set_expiration :: "int \<Rightarrow> instant \<Rightarrow> Job \<Rightarrow> Job" where
  "set_expiration days now j = j\<lparr>jb_expires_at := Some (now + days * 86400 * SECOND)\<rparr>"

section \<open>Creating a job\<close>

definition agent_approval_status :: "Agent list \<Rightarrow> uuid \<Rightarrow> AgentApprovalStatus option" where
  "agent_approval_status ags aid = map_option ag_approval_status (find (\<lambda>a. ag_id a = aid) ags)"

definition validated_params :: "job_world \<Rightarrow> JobType \<Rightarrow> dict \<Rightarrow> py_error + dict" where
  "validated_params W ty params =
     (case params_schema W ty params of
        None \<Rightarrow> Inl (ValidationException ''Invalid params'') | Some p \<Rightarrow> Inr p)"

definition admit_agent :: "Agent list \<Rightarrow> uuid option \<Rightarrow> py_error + unit" where
  "admit_agent ags agent_id =
     (case agent_id of
        None \<Rightarrow> Inr ()
      | Some aid \<Rightarrow>
          case agent_approval_status ags aid of
            None \<Rightarrow> Inl (NotFoundException ''Agent'')
          | Some approval \<Rightarrow>
              if approval \<in> set UNADMITTED_AGENT_STATUSES
              then Inl (ValidationException ''it takes no jobs'') else Inr ())"

definition create_job ::
    "job_world \<Rightarrow> Agent list \<Rightarrow> Job list \<Rightarrow> instant \<Rightarrow> uuid \<Rightarrow> JobCreate \<Rightarrow> string option \<Rightarrow> py_error + Job list"
where
  "create_job W ags js now new_id data created_by =
     (if requires_agent (jc_type data) \<and> jc_agent_id data = None
      then Inl (ValidationException ''name its agent_id'')
      else res_bind (validated_params W (jc_type data) (jc_params data)) (\<lambda>params.
        res_bind (admit_agent ags (jc_agent_id data)) (\<lambda>_.
          let job = \<lparr>jb_id = new_id, jb_type = jc_type data, jb_agent_id = jc_agent_id data, jb_params = params,
                jb_status = J_PENDING, jb_priority = jc_priority data, jb_created_at = now,
                jb_assigned_at = None, jb_started_at = None, jb_completed_at = None, jb_expires_at = None,
                jb_result = None, jb_error = None, jb_created_by = created_by, jb_tags = jc_tags data,
                jb_schedule = jc_schedule data, jb_automation_config = jc_automation_config data\<rparr>
          in Inr (js @ [set_expiration (job_retention_days W) now job]))))"

section \<open>Handing jobs out\<close>

definition get_job :: "Job list \<Rightarrow> uuid \<Rightarrow> Job option" where
  "get_job js jid = find (\<lambda>j. jb_id j = jid) js"

definition get_pending_for_agent :: "Job list \<Rightarrow> uuid \<Rightarrow> nat \<Rightarrow> Job list" where
  "get_pending_for_agent js aid bound =
     first_by (\<lambda>j. (- jb_priority j, jb_created_at j)) bound
       (filter (\<lambda>j. jb_agent_id j = Some aid \<and> jb_status j = J_PENDING) js)"

text \<open>The session's copies, assigned in memory; they reach the table when the session commits.\<close>

definition get_pending_jobs_for_agent :: "job_world \<Rightarrow> Job list \<Rightarrow> uuid \<Rightarrow> instant \<Rightarrow> Job list" where
  "get_pending_jobs_for_agent W js aid now =
     map (assign now) (get_pending_for_agent js aid (job_max_dispatch_per_heartbeat W))"

definition job_to_dispatch :: "job_world \<Rightarrow> Job \<Rightarrow> JobDispatch" where
  "job_to_dispatch W j =
     \<lparr>jd_job_id = jb_id j, jd_type = jb_type j, jd_params = jb_params j, jd_priority = jb_priority j,
      jd_timeout_seconds = job_timeout_setting W (jb_type j)\<rparr>"

text \<open>
  The commit of the session: each row is updated by its id, whatever it holds by then, in the
  columns the session changed; a row gone by then fails the whole commit.
\<close>

definition written :: "Job list \<Rightarrow> Job \<Rightarrow> Job" where
  "written picked j =
     (case find (\<lambda>p. jb_id p = jb_id j) picked of
        None \<Rightarrow> j | Some p \<Rightarrow> j\<lparr>jb_status := jb_status p, jb_assigned_at := jb_assigned_at p\<rparr>)"

definition commit_assigned :: "Job list \<Rightarrow> Job list \<Rightarrow> py_error + Job list" where
  "commit_assigned picked js =
     (if list_all (\<lambda>p. get_job js (jb_id p) \<noteq> None) picked
      then Inr (map (written picked) js) else Inl StaleDataError)"

definition get_jobs_for_dispatch ::
    "job_world \<Rightarrow> Job list \<Rightarrow> uuid \<Rightarrow> instant \<Rightarrow> py_error + Job list \<times> JobDispatch list" where
  "get_jobs_for_dispatch W js aid now =
     (let picked = get_pending_jobs_for_agent W js aid now in
      res_bind (commit_assigned picked js) (\<lambda>js'. Inr (js', map (job_to_dispatch W) picked)))"

section \<open>Moving a job\<close>

definition movable :: "JobStatus \<Rightarrow> Job \<Rightarrow> bool" where
  "movable status j \<longleftrightarrow>
     (if status = J_RUNNING then jb_status j = J_ASSIGNED else \<not> is_terminal j) \<and> jb_status j \<noteq> status"

definition coalesce :: "'a option \<Rightarrow> 'a option \<Rightarrow> 'a option" where
  "coalesce x y = (case x of None \<Rightarrow> y | Some _ \<Rightarrow> x)"

definition moved :: "instant \<Rightarrow> JobStatus \<Rightarrow> dict option \<Rightarrow> string option \<Rightarrow> Job \<Rightarrow> Job" where
  "moved now status result error j =
     j\<lparr>jb_status := status,
       jb_result := coalesce result (jb_result j),
       jb_error := coalesce error (jb_error j),
       jb_started_at := (if status = J_RUNNING then coalesce (jb_started_at j) (Some now) else jb_started_at j),
       jb_completed_at := (if status \<in> set FINISHED then coalesce (jb_completed_at j) (Some now)
                           else jb_completed_at j)\<rparr>"

definition move_open_job ::
    "Job list \<Rightarrow> instant \<Rightarrow> uuid \<Rightarrow> JobStatus \<Rightarrow> dict option \<Rightarrow> string option \<Rightarrow> Job list \<times> Job option" where
  "move_open_job js now jid status result error =
     (map (\<lambda>j. if jb_id j = jid \<and> movable status j then moved now status result error j else j) js,
      map_option (moved now status result error) (find (\<lambda>j. jb_id j = jid \<and> movable status j) js))"

definition update_job_status :: "Job list \<Rightarrow> instant \<Rightarrow> uuid \<Rightarrow> JobStatus \<Rightarrow> Job list \<times> Job option" where
  "update_job_status js now jid status =
     (let (js', m) = move_open_job js now jid status None None in
      (js', case m of Some j \<Rightarrow> Some j | None \<Rightarrow> get_job js' jid))"

definition mark_job_started :: "Job list \<Rightarrow> instant \<Rightarrow> uuid \<Rightarrow> Job list \<times> Job option" where
  "mark_job_started js now jid = update_job_status js now jid J_RUNNING"

definition submit_job_result ::
    "job_world \<Rightarrow> Job list \<Rightarrow> instant \<Rightarrow> uuid \<Rightarrow> JobResultSubmit \<Rightarrow> py_error + Job list \<times> Job option" where
  "submit_job_result W js now jid data =
     (case get_job js jid of
        None \<Rightarrow> Inr (js, None)
      | Some job \<Rightarrow>
          res_bind
            (if jr_status data = J_COMPLETED
             then res_bind (enrich_job_result W (jb_type job) (case jr_result data of None \<Rightarrow> [] | Some r \<Rightarrow> r))
                    (\<lambda>enriched. Inr (move_open_job js now jid J_COMPLETED (Some enriched) None))
             else Inr (move_open_job js now jid J_FAILED None
                    (Some (case jr_error data of None \<Rightarrow> ''Unknown error''
                           | Some e \<Rightarrow> if e = [] then ''Unknown error'' else e))))
            (\<lambda>(js', m). Inr (js', case m of Some j \<Rightarrow> Some j | None \<Rightarrow> get_job js' jid)))"

definition cancel_job :: "Job list \<Rightarrow> instant \<Rightarrow> uuid \<Rightarrow> Job list \<times> Job option" where
  "cancel_job js now jid = move_open_job js now jid J_CANCELLED None None"

definition admin_cancel_job :: "Job list \<Rightarrow> instant \<Rightarrow> uuid \<Rightarrow> py_error + Job list \<times> Job option" where
  "admin_cancel_job js now jid =
     (case get_job js jid of
        None \<Rightarrow> Inl (NotFoundException ''Job'')
      | Some _ \<Rightarrow>
          (case cancel_job js now jid of
             (js', None) \<Rightarrow> Inl JobFinishedException
           | (js', Some _) \<Rightarrow> Inr (js', get_job js' jid)))"

definition delete_job :: "Job list \<Rightarrow> uuid \<Rightarrow> py_error + Job list" where
  "delete_job js jid =
     (case get_job js jid of
        None \<Rightarrow> Inl (NotFoundException ''Job'') | Some _ \<Rightarrow> Inr (filter (\<lambda>j. jb_id j \<noteq> jid) js))"

definition expired :: "instant \<Rightarrow> Job \<Rightarrow> bool" where
  "expired now j \<longleftrightarrow> (case jb_expires_at j of None \<Rightarrow> False | Some e \<Rightarrow> e < now) \<and> is_terminal j"

definition purge_expired_jobs :: "Job list \<Rightarrow> instant \<Rightarrow> Job list \<times> nat" where
  "purge_expired_jobs js now = (filter (\<lambda>j. \<not> expired now j) js, length (filter (expired now) js))"

section \<open>Serving requests\<close>

text \<open>
  The requests the server takes, one after the other: a user creates, cancels and deletes, an
  agent sends heartbeats, start notices and results, the background task purges, and agents come
  and go (\<open>Fleet\<close>). A request that raises is rolled back.
\<close>

datatype job_request =
    CreateJob uuid JobCreate "string option"
  | Heartbeat uuid
  | StartJob uuid
  | SubmitResult uuid JobResultSubmit
  | CancelJob uuid
  | DeleteJob uuid
  | PurgeJobs
  | Fleet "Agent list"

type_synonym job_state = "Agent list \<times> Job list"

definition committed :: "py_error + 'a \<Rightarrow> 'a \<Rightarrow> 'a" where
  "committed r s = (case r of Inl _ \<Rightarrow> s | Inr s' \<Rightarrow> s')"

fun serve :: "job_world \<Rightarrow> instant \<Rightarrow> job_request \<Rightarrow> job_state \<Rightarrow> job_state \<times> JobDispatch list" where
  "serve W now (CreateJob i data by) (ags, js) = ((ags, committed (create_job W ags js now i data by) js), [])"
| "serve W now (Heartbeat aid) (ags, js) =
     (let (js', ds) = committed (get_jobs_for_dispatch W js aid now) (js, []) in ((ags, js'), ds))"
| "serve W now (StartJob i) (ags, js) = ((ags, fst (mark_job_started js now i)), [])"
| "serve W now (SubmitResult i data) (ags, js) =
     ((ags, fst (committed (submit_job_result W js now i data) (js, None))), [])"
| "serve W now (CancelJob i) (ags, js) = ((ags, fst (cancel_job js now i)), [])"
| "serve W now (DeleteJob i) (ags, js) = ((ags, committed (delete_job js i) js), [])"
| "serve W now PurgeJobs (ags, js) = ((ags, fst (purge_expired_jobs js now)), [])"
| "serve W now (Fleet ags') (ags, js) = ((ags', js), [])"

fun serve_all :: "job_world \<Rightarrow> (instant \<times> job_request) list \<Rightarrow> job_state \<Rightarrow> job_state \<times> JobDispatch list" where
  "serve_all W [] s = (s, [])"
| "serve_all W ((now, r) # rs) s =
     (let (s1, ds) = serve W now r s; (s2, ds') = serve_all W rs s1 in (s2, ds @ ds'))"

definition created_ids :: "(instant \<times> job_request) list \<Rightarrow> uuid list" where
  "created_ids rs = concat (map (\<lambda>(_, r). case r of CreateJob i _ _ \<Rightarrow> [i] | _ \<Rightarrow> []) rs)"

section \<open>What a request does to a row\<close>

text \<open>A row stays, is handed out while pending, or is moved.\<close>

inductive evolves :: "instant \<Rightarrow> Job \<Rightarrow> Job \<Rightarrow> bool" for now where
  ev_same: "evolves now j j"
| ev_assign: "jb_status j = J_PENDING \<Longrightarrow> evolves now j (assign now j)"
| ev_move: "movable st j \<Longrightarrow> st = J_RUNNING \<and> res = None \<and> err = None \<or> st = J_COMPLETED \<and> res \<noteq> None \<and> err = None \<or>
     st = J_FAILED \<and> res = None \<and> err \<noteq> None \<or> st = J_CANCELLED \<and> res = None \<and> err = None \<Longrightarrow>
     evolves now j (moved now st res err j)"

text \<open>The consistency of a row's status, time stamps and outcome.\<close>

definition job_ok :: "instant \<Rightarrow> Job \<Rightarrow> bool" where
  "job_ok t j \<longleftrightarrow>
     jb_created_at j \<le> t \<and> jb_agent_id j \<noteq> None \<and>
     (case jb_assigned_at j of
        None \<Rightarrow> jb_status j \<noteq> J_ASSIGNED \<and> jb_status j \<noteq> J_RUNNING
      | Some a \<Rightarrow> jb_status j \<noteq> J_PENDING \<and> jb_created_at j \<le> a \<and> a \<le> t) \<and>
     (case jb_started_at j of
        None \<Rightarrow> jb_status j \<noteq> J_RUNNING
      | Some b \<Rightarrow> jb_status j \<noteq> J_PENDING \<and> jb_status j \<noteq> J_ASSIGNED \<and> b \<le> t \<and>
          (case jb_assigned_at j of None \<Rightarrow> False | Some a \<Rightarrow> a \<le> b)) \<and>
     (case jb_completed_at j of
        None \<Rightarrow> \<not> is_terminal j
      | Some c \<Rightarrow> is_terminal j \<and> jb_created_at j \<le> c \<and> c \<le> t \<and>
          (case jb_assigned_at j of None \<Rightarrow> True | Some a \<Rightarrow> a \<le> c) \<and>
          (case jb_started_at j of None \<Rightarrow> True | Some b \<Rightarrow> b \<le> c)) \<and>
     (jb_status j = J_COMPLETED \<longleftrightarrow> jb_result j \<noteq> None) \<and>
     (jb_status j = J_FAILED \<longleftrightarrow> jb_error j \<noteq> None)"

fun job_rank :: "JobStatus \<Rightarrow> nat" where
  "job_rank J_PENDING = 0"
| "job_rank J_ASSIGNED = 1"
| "job_rank J_RUNNING = 2"
| "job_rank _ = 3"

text \<open>How a row may have changed over time: only its status, stamps and outcome, the status only
  forward, a stamp once set for good, and nothing once it is finished.\<close>

definition job_order :: "Job \<Rightarrow> Job" where
  "job_order j = j\<lparr>jb_status := J_PENDING, jb_assigned_at := None, jb_started_at := None,
     jb_completed_at := None, jb_result := None, jb_error := None\<rparr>"

definition flows :: "Job \<Rightarrow> Job \<Rightarrow> bool" where
  "flows j j' \<longleftrightarrow>
     job_order j' = job_order j \<and>
     job_rank (jb_status j) \<le> job_rank (jb_status j') \<and>
     (jb_assigned_at j \<noteq> None \<longrightarrow> jb_assigned_at j' = jb_assigned_at j) \<and>
     (jb_started_at j \<noteq> None \<longrightarrow> jb_started_at j' = jb_started_at j) \<and>
     (is_terminal j \<longrightarrow> j' = j)"

lemma flows_refl [simp]: "flows j j"
  by (simp add: flows_def)

lemma flows_trans: "flows a b \<Longrightarrow> flows b c \<Longrightarrow> flows a c"
  unfolding flows_def by auto

lemma job_order_id: "job_order j' = job_order j \<Longrightarrow> jb_id j' = jb_id j \<and> jb_expires_at j' = jb_expires_at j"
  unfolding job_order_def by (drule arg_cong [where f = "\<lambda>j. (jb_id j, jb_expires_at j)"]) simp

lemma flows_id: "flows j j' \<Longrightarrow> jb_id j' = jb_id j \<and> jb_expires_at j' = jb_expires_at j"
  unfolding flows_def by (blast dest: job_order_id)

lemmas stamp_defs = assign_def moved_def movable_def coalesce_def is_terminal_def FINISHED_def

lemma job_order_simps [simp]:
  "job_order (assign now j) = job_order j" "job_order (moved now st res err j) = job_order j"
  by (simp_all add: job_order_def assign_def moved_def)

lemma flows_assign: "jb_status j = J_PENDING \<Longrightarrow> jb_assigned_at j = None \<Longrightarrow> flows j (assign now j)"
  by (simp add: flows_def assign_def [of now j, symmetric]) (simp add: stamp_defs)

lemma movable_rank: "movable st j \<Longrightarrow> st \<noteq> J_PENDING \<Longrightarrow> st \<noteq> J_ASSIGNED \<Longrightarrow> job_rank (jb_status j) \<le> job_rank st"
  by (cases st; cases "jb_status j") (simp_all add: movable_def is_terminal_def FINISHED_def)

lemma movable_open: "movable st j \<Longrightarrow> \<not> is_terminal j"
  by (auto simp: movable_def is_terminal_def FINISHED_def split: if_splits)

lemma moved_fields [simp]:
  "jb_status (moved now st res err j) = st"
  "jb_assigned_at (moved now st res err j) = jb_assigned_at j"
  "jb_id (moved now st res err j) = jb_id j"
  by (simp_all add: moved_def)

lemma flows_moved: "movable st j \<Longrightarrow> st \<noteq> J_PENDING \<Longrightarrow> st \<noteq> J_ASSIGNED \<Longrightarrow> flows j (moved now st res err j)"
  by (simp add: flows_def movable_rank movable_open) (simp add: moved_def coalesce_def split: option.split)

lemma evolves_flows:
  assumes "evolves now j j'" and "job_ok t j"
  shows "flows j j'"
  using assms(1)
proof (cases rule: evolves.cases)
  case ev_assign
  with assms(2) show ?thesis
    by (auto simp: job_ok_def intro: flows_assign split: option.splits)
next
  case (ev_move st res err)
  then have "st \<noteq> J_PENDING" "st \<noteq> J_ASSIGNED" by auto
  with ev_move show ?thesis by (simp add: flows_moved)
qed simp

lemma moved_ok:
  assumes ok: "job_ok t j" and "t \<le> now" and m: "movable st j"
    and out: "(st = J_COMPLETED \<longleftrightarrow> res \<noteq> None) \<and> (st = J_FAILED \<longleftrightarrow> err \<noteq> None)"
    and st: "st \<noteq> J_PENDING" "st \<noteq> J_ASSIGNED"
  shows "job_ok now (moved now st res err j)"
proof (cases "st = J_RUNNING")
  case True
  with m have "jb_status j = J_ASSIGNED" by (simp add: movable_def)
  with True ok out \<open>t \<le> now\<close> show ?thesis
    by (auto simp: job_ok_def moved_def coalesce_def is_terminal_def FINISHED_def split: option.splits)
next
  case False
  with st have fin: "st \<in> set FINISHED" by (cases st) (simp_all add: FINISHED_def)
  from m have "\<not> is_terminal j" by (rule movable_open)
  with ok have "jb_completed_at j = None" "jb_result j = None" "jb_error j = None"
    by (auto simp: job_ok_def is_terminal_def FINISHED_def split: option.splits)
  with fin False ok out st \<open>t \<le> now\<close> show ?thesis
    by (auto simp: job_ok_def moved_def coalesce_def is_terminal_def split: option.splits)
qed

lemma evolves_ok:
  assumes "evolves now j j'" and "job_ok t j" and "t \<le> now"
  shows "job_ok now j'"
  using assms(1)
proof (cases rule: evolves.cases)
  case ev_same
  with assms(2,3) show ?thesis
    by (auto simp: job_ok_def split: option.splits)
next
  case ev_assign
  with assms(2,3) show ?thesis
    by (auto simp: job_ok_def stamp_defs split: option.splits)
next
  case (ev_move st res err)
  then have "st \<noteq> J_PENDING" "st \<noteq> J_ASSIGNED"
    "(st = J_COMPLETED \<longleftrightarrow> res \<noteq> None) \<and> (st = J_FAILED \<longleftrightarrow> err \<noteq> None)" by auto
  with ev_move assms(2,3) show ?thesis by (simp add: moved_ok)
qed

lemma evolves_id: "evolves now j j' \<Longrightarrow> jb_id j' = jb_id j"
  by (induction rule: evolves.induct) (simp_all add: assign_def moved_def)

section \<open>Every request by the rows\<close>

lemma same_id: "distinct (map jb_id js) \<Longrightarrow> a \<in> set js \<Longrightarrow> b \<in> set js \<Longrightarrow> jb_id a = jb_id b \<Longrightarrow> a = b"
  using inj_on_distinct_map inj_on_eq_iff by metis

lemma get_job_iff: "distinct (map jb_id js) \<Longrightarrow> get_job js i = Some j \<longleftrightarrow> j \<in> set js \<and> jb_id j = i"
  unfolding get_job_def by (induction js) auto

lemma get_job_None: "get_job js i = None \<longleftrightarrow> i \<notin> jb_id ` set js"
  by (auto simp: get_job_def find_None_iff)

lemma assign_fields [simp]:
  "jb_id (assign now j) = jb_id j" "jb_status (assign now j) = J_ASSIGNED"
  "jb_assigned_at (assign now j) = Some now" "job_to_dispatch W (assign now j) = job_to_dispatch W j"
  by (simp_all add: assign_def job_to_dispatch_def)

lemma pending_rows:
  assumes "j \<in> set (get_pending_for_agent js aid n)"
  shows "j \<in> set js \<and> jb_agent_id j = Some aid \<and> jb_status j = J_PENDING"
  using assms set_first_by by (fastforce simp: get_pending_for_agent_def)

lemma distinct_pending: "distinct (map jb_id js) \<Longrightarrow> distinct (map jb_id (get_pending_for_agent js aid n))"
  unfolding get_pending_for_agent_def by (intro distinct_first_by distinct_map_filter)

lemma written_assigned:
  assumes "distinct (map jb_id js)" "set picked \<subseteq> set js" "j \<in> set js"
  shows "written (map (assign now) picked) j = (if j \<in> set picked then assign now j else j)"
proof (cases "find (\<lambda>p. jb_id p = jb_id j) (map (assign now) picked)")
  case None
  then have "j \<notin> set picked" by (auto simp: find_None_iff)
  with None show ?thesis by (simp add: written_def)
next
  case (Some p)
  then obtain q where q: "q \<in> set picked" "p = assign now q" "jb_id q = jb_id j"
    by (auto simp: find_Some_iff) (metis nth_mem)
  with assms have "q = j" by (meson same_id subsetD)
  with Some q show ?thesis by (simp add: written_def assign_def)
qed

lemma dispatch_rows:
  fixes W aid
  assumes d: "distinct (map jb_id js)"
  defines "picked \<equiv> get_pending_for_agent js aid (job_max_dispatch_per_heartbeat W)"
  shows "get_jobs_for_dispatch W js aid now =
    Inr (map (\<lambda>j. if j \<in> set picked then assign now j else j) js, map (job_to_dispatch W) picked)"
proof -
  have sub: "set picked \<subseteq> set js" using pending_rows by (auto simp: picked_def)
  have "list_all (\<lambda>p. get_job js (jb_id p) \<noteq> None) (map (assign now) picked)"
    using sub by (auto simp: list_all_iff get_job_None)
  then show ?thesis
    using written_assigned [OF d sub]
    by (simp add: get_jobs_for_dispatch_def get_pending_jobs_for_agent_def picked_def [symmetric]
        commit_assigned_def Let_def)
qed

text \<open>A request keeps some rows, each changed as a row may change, and adds at most one new row;
  it hands out distinct jobs that were pending and no longer are.\<close>

definition by_rows :: "instant \<Rightarrow> job_request \<Rightarrow> Job list \<Rightarrow> Job list \<Rightarrow> JobDispatch list \<Rightarrow> bool" where
  "by_rows now r js js' ds \<longleftrightarrow> (\<exists>f keep added. js' = map f (filter keep js) @ added \<and>
     (\<forall>j\<in>set js. evolves now j (f j)) \<and>
     (\<forall>j\<in>set js. keep j \<or> r = DeleteJob (jb_id j) \<or> expired now j) \<and>
     (\<forall>j\<in>set added. job_ok now j \<and> jb_status j = J_PENDING) \<and> map jb_id added = filter (\<lambda>_. added \<noteq> []) (created_ids [(now, r)]) \<and>
     (\<forall>d\<in>set ds. \<exists>j\<in>set js. keep j \<and> jb_id j = jd_job_id d \<and> jb_status j = J_PENDING \<and> jb_status (f j) \<noteq> J_PENDING) \<and>
     distinct (map jd_job_id ds))"

lemma by_rows_map:
  assumes "\<And>j. j \<in> set js \<Longrightarrow> evolves now j (f j)"
  shows "by_rows now r js (map f js) []"
  unfolding by_rows_def using assms
  by (intro exI [of _ f] exI [of _ "\<lambda>_. True"] exI [of _ "[]"]) simp

lemma by_rows_same: "by_rows now r js js []"
  using by_rows_map [of js now "\<lambda>j. j"] ev_same by simp

lemma by_rows_move:
  assumes "st = J_RUNNING \<and> res = None \<and> err = None \<or> st = J_COMPLETED \<and> res \<noteq> None \<and> err = None \<or>
     st = J_FAILED \<and> res = None \<and> err \<noteq> None \<or> st = J_CANCELLED \<and> res = None \<and> err = None"
  shows "by_rows now r js (fst (move_open_job js now i st res err)) []"
  unfolding move_open_job_def fst_conv using assms
  by (intro by_rows_map) (simp add: ev_same ev_move)

lemma by_rows_filter:
  assumes "\<And>j. j \<in> set js \<Longrightarrow> keep j \<or> r = DeleteJob (jb_id j) \<or> expired now j"
  shows "by_rows now r js (filter keep js) []"
  unfolding by_rows_def using assms
  by (intro exI [of _ "\<lambda>j. j"] exI [of _ keep] exI [of _ "[]"]) (simp add: ev_same)

lemma by_rows_create: "by_rows now (CreateJob i data by) js (committed (create_job W ags js now i data by) js) []"
proof (cases "create_job W ags js now i data by")
  case (Inl e)
  then show ?thesis by (simp add: committed_def by_rows_same)
next
  case (Inr js')
  then obtain j where "js' = js @ [j]" "jb_id j = i" "jb_status j = J_PENDING" "job_ok now j"
    by (cases "jc_agent_id data"; cases "jc_type data")
       (auto simp: create_job_def res_bind_Inr_iff Let_def set_expiration_def job_ok_def is_terminal_def FINISHED_def
         split: if_splits)
  then show ?thesis
    unfolding Inr committed_def by_rows_def
    by (intro exI [of _ "\<lambda>j. j"] exI [of _ "\<lambda>_. True"] exI [of _ "[j]"]) (simp add: ev_same created_ids_def)
qed

lemma by_rows_dispatch:
  assumes d: "distinct (map jb_id js)" and s: "serve W now (Heartbeat aid) (ags, js) = ((ags', js'), ds)"
  shows "by_rows now r js js' ds"
proof -
  let ?p = "get_pending_for_agent js aid (job_max_dispatch_per_heartbeat W)"
  let ?f = "\<lambda>j. if j \<in> set ?p then assign now j else j"
  have js': "js' = map ?f js" and ds: "ds = map (job_to_dispatch W) ?p"
    using s by (simp_all add: dispatch_rows [OF d] committed_def)
  have "map jd_job_id ds = map jb_id ?p" by (simp add: ds job_to_dispatch_def)
  then have "distinct (map jd_job_id ds)" using distinct_pending [OF d] by simp
  moreover have "\<forall>x\<in>set ds. \<exists>j\<in>set js. jb_id j = jd_job_id x \<and> jb_status j = J_PENDING \<and> jb_status (?f j) \<noteq> J_PENDING"
    using pending_rows by (fastforce simp: ds job_to_dispatch_def)
  moreover have "\<forall>j\<in>set js. evolves now j (?f j)"
    using pending_rows by (auto intro: ev_same ev_assign)
  ultimately show ?thesis
    unfolding js' by_rows_def
    by (intro exI [of _ ?f] exI [of _ "\<lambda>_. True"] exI [of _ "[]"]) simp
qed

lemma serve_by_rows:
  assumes d: "distinct (map jb_id js)" and s: "serve W now r (ags, js) = ((ags', js'), ds)"
  shows "by_rows now r js js' ds"
proof (cases r)
  case (Heartbeat aid)
  with assms show ?thesis by (simp add: by_rows_dispatch del: serve.simps)
next
  case (SubmitResult i data)
  have "by_rows now r js (fst (committed (submit_job_result W js now i data) (js, None))) []"
    by (auto simp: submit_job_result_def committed_def res_bind_def by_rows_same
        intro!: by_rows_move split: option.split sum.split prod.split)
       (metis by_rows_move fst_conv option.distinct(1))+
  with s SubmitResult show ?thesis by simp
next
  case (StartJob i)
  have "by_rows now r js (fst (mark_job_started js now i)) []"
    using by_rows_move [of J_RUNNING None None now r js i]
    by (simp add: mark_job_started_def update_job_status_def case_prod_beta)
  with s StartJob show ?thesis by simp
next
  case (DeleteJob i)
  with s show ?thesis
    by (auto simp: delete_job_def committed_def by_rows_same intro!: by_rows_filter split: option.splits)
qed (use s in \<open>auto simp: by_rows_create by_rows_same purge_expired_jobs_def cancel_job_def intro!: by_rows_filter by_rows_move\<close>)

section \<open>Runs of the server\<close>

lemma created_ids_Cons: "created_ids (x # rs) = created_ids [x] @ created_ids rs"
  by (simp add: created_ids_def)

lemma created_ids_Nil [simp]: "created_ids [] = []"
  by (simp add: created_ids_def)

lemma filter_all_or_none: "filter (\<lambda>_. b) xs = (if b then xs else [])"
  by simp

lemma by_rows_ids:
  assumes b: "by_rows now r js js1 ds" and d: "distinct (map jb_id js @ created_ids [(now, r)] @ later)"
  shows "distinct (map jb_id js1 @ later)"
proof -
  obtain f keep added where js1: "js1 = map f (filter keep js) @ added"
    and ev: "\<forall>j\<in>set js. evolves now j (f j)"
    and ids: "map jb_id added = (if added \<noteq> [] then created_ids [(now, r)] else [])"
    using b unfolding by_rows_def filter_all_or_none by blast
  have fid: "map jb_id (map f (filter keep js)) = map jb_id (filter keep js)"
    using ev evolves_id by auto
  have "set (map jb_id added) \<subseteq> set (created_ids [(now, r)])" "distinct (map jb_id added)"
    using ids d by (cases "added = []"; auto)+
  with d show ?thesis unfolding js1 map_append fid by (auto simp: distinct_map_filter)
qed

lemma by_rows_step:
  assumes b: "by_rows now r js js1 ds" and d: "distinct (map jb_id js @ created_ids [(now, r)] @ later)"
    and ok: "\<forall>j\<in>set js. job_ok t j" and "t \<le> now"
  shows "distinct (map jb_id js1 @ later)" (is ?ids)
    and "\<forall>j\<in>set js1. job_ok now j" (is ?ok)
    and "\<forall>j\<in>set js. \<forall>j1\<in>set js1. jb_id j1 = jb_id j \<longrightarrow> flows j j1" (is ?flow)
    and "\<forall>j\<in>set js. jb_id j \<in> jb_id ` set js1 \<or> r = DeleteJob (jb_id j) \<or> expired now j" (is ?kept)
    and "\<forall>x\<in>set ds. (\<exists>j\<in>set js. jb_id j = jd_job_id x \<and> jb_status j = J_PENDING) \<and>
           (\<forall>j1\<in>set js1. jb_id j1 = jd_job_id x \<longrightarrow> jb_status j1 \<noteq> J_PENDING)" (is ?given)
    and "\<forall>j1\<in>set js1. (\<exists>j\<in>set js. flows j j1) \<or> jb_id j1 \<in> set (created_ids [(now, r)])" (is ?origin)
    and "distinct (map jd_job_id ds)" (is ?once)
proof -
  obtain f keep added where js1: "js1 = map f (filter keep js) @ added"
    and ev: "\<forall>j\<in>set js. evolves now j (f j)"
    and kept: "\<forall>j\<in>set js. keep j \<or> r = DeleteJob (jb_id j) \<or> expired now j"
    and new: "\<forall>j\<in>set added. job_ok now j \<and> jb_status j = J_PENDING"
    and ids: "map jb_id added = (if added \<noteq> [] then created_ids [(now, r)] else [])"
    and given: "\<forall>d\<in>set ds. \<exists>j\<in>set js. keep j \<and> jb_id j = jd_job_id d \<and> jb_status j = J_PENDING \<and> jb_status (f j) \<noteq> J_PENDING"
    and once: "distinct (map jd_job_id ds)"
    using b unfolding by_rows_def filter_all_or_none by blast
  show ?ids by (rule by_rows_ids [OF b d])
  have sub: "set (map jb_id added) \<subseteq> set (created_ids [(now, r)])" using ids by (cases "added = []") auto
  have "job_ok now (f j)" if "j \<in> set js" for j
    using that ev ok \<open>t \<le> now\<close> by (blast intro: evolves_ok)
  with new show ?ok by (auto simp: js1)
  have old: "j1 = f j \<and> keep j" if at: "j \<in> set js" "j1 \<in> set js1" "jb_id j1 = jb_id j" for j j1
  proof -
    have "jb_id j1 \<notin> set (map jb_id added)" using at d sub by auto
    then obtain j0 where "j0 \<in> set js" "keep j0" "j1 = f j0" using at(2) by (auto simp: js1)
    moreover from this at have "j0 = j" using ev evolves_id d same_id [of js j0 j] by auto
    ultimately show ?thesis by simp
  qed
  show ?flow using old ev ok evolves_flows by metis
  have "jb_id j \<in> jb_id ` set js1" if "j \<in> set js" "keep j" for j
  proof (rule image_eqI [of _ _ "f j"])
    show "jb_id j = jb_id (f j)" using that ev evolves_id by metis
    show "f j \<in> set js1" using that by (simp add: js1)
  qed
  with kept show ?kept by blast
  show ?given using given old by metis
  show ?origin using ev ok evolves_flows sub by (fastforce simp: js1)
  show ?once by (rule once)
qed

text \<open>A run with fresh ids and a clock that does not go back.\<close>

inductive job_run :: "instant \<Rightarrow> (instant \<times> job_request) list \<Rightarrow> Job list \<Rightarrow> Job list \<Rightarrow> JobDispatch list \<Rightarrow> bool" where
  run_Nil: "\<forall>j\<in>set js. job_ok t j \<Longrightarrow> distinct (map jb_id js) \<Longrightarrow> job_run t [] js js []"
| run_Cons: "by_rows now r js js1 ds1 \<Longrightarrow> distinct (map jb_id js @ created_ids [(now, r)] @ created_ids rs) \<Longrightarrow>
    \<forall>j\<in>set js. job_ok t j \<Longrightarrow> t \<le> now \<Longrightarrow> job_run now rs js1 js' ds2 \<Longrightarrow>
    job_run t ((now, r) # rs) js js' (ds1 @ ds2)"

lemma serve_all_run:
  "serve_all W rs (ags, js) = ((ags', js'), ds) \<Longrightarrow> distinct (map jb_id js @ created_ids rs) \<Longrightarrow>
   sorted (t # map fst rs) \<Longrightarrow> \<forall>j\<in>set js. job_ok t j \<Longrightarrow> job_run t rs js js' ds"
proof (induction rs arbitrary: ags js ds t)
  case (Cons x rs)
  obtain now r where x: "x = (now, r)" by force
  obtain ags1 js1 ds1 ds2 where s: "serve W now r (ags, js) = ((ags1, js1), ds1)"
    and rest: "serve_all W rs (ags1, js1) = ((ags', js'), ds2)" and ds: "ds = ds1 @ ds2"
    using Cons.prems(1) unfolding x by (auto simp: Let_def split: prod.splits)
  have d: "distinct (map jb_id js @ created_ids [(now, r)] @ created_ids rs)"
    using Cons.prems(2) unfolding x by (subst (asm) created_ids_Cons)
  then have b: "by_rows now r js js1 ds1" using s serve_by_rows by auto
  have le: "t \<le> now" and srt: "sorted (now # map fst rs)" using Cons.prems(3) x by auto
  note step = by_rows_step [OF b d Cons.prems(4) le]
  show ?case
    unfolding x ds by (rule run_Cons [OF b d Cons.prems(4) le Cons.IH [OF rest step(1) srt step(2)]])
qed (auto intro: run_Nil)

lemma run_ok: "job_run t rs js js' ds \<Longrightarrow> (\<forall>j\<in>set js'. job_ok (last (t # map fst rs)) j) \<and> distinct (map jb_id js')"
  by (induction rule: job_run.induct) auto

lemma run_origin:
  "job_run t rs js js' ds \<Longrightarrow> j' \<in> set js' \<Longrightarrow> (\<exists>j\<in>set js. flows j j') \<or> jb_id j' \<in> set (created_ids rs)"
proof (induction rule: job_run.induct)
  case (run_Cons now r js js1 ds1 rs t js' ds2)
  have "set (created_ids ((now, r) # rs)) = set (created_ids [(now, r)]) \<union> set (created_ids rs)"
    by (subst created_ids_Cons) simp
  moreover from run_Cons.IH [OF run_Cons.prems]
  have "(\<exists>j\<in>set js. flows j j') \<or> jb_id j' \<in> set (created_ids [(now, r)]) \<or> jb_id j' \<in> set (created_ids rs)"
  proof
    assume "\<exists>j1\<in>set js1. flows j1 j'"
    then obtain j1 where j1: "j1 \<in> set js1" "flows j1 j'" by blast
    with by_rows_step(6) [OF run_Cons.hyps(1-4)] consider j where "j \<in> set js" "flows j j1" | "jb_id j1 \<in> set (created_ids [(now, r)])"
      by blast
    then show ?thesis using j1(2) by cases (auto dest: flows_id intro: flows_trans)
  qed simp
  ultimately show ?case by auto
qed (auto intro: flows_refl)

lemma run_ids: "job_run t rs js js' ds \<Longrightarrow> distinct (map jb_id js @ created_ids rs)"
proof (induction rule: job_run.induct)
  case (run_Cons now r js js1 ds1 rs t js' ds2)
  then show ?case by (simp only: created_ids_Cons [of _ rs])
qed simp

lemma run_flows:
  assumes r: "job_run t rs js js' ds" and "j \<in> set js" and j': "j' \<in> set js'" "jb_id j' = jb_id j"
  shows "flows j j'"
proof -
  have d: "distinct (map jb_id js)" "set (map jb_id js) \<inter> set (created_ids rs) = {}"
    using run_ids [OF r] by (simp_all only: distinct_append)
  from run_origin [OF r j'(1)] show ?thesis
  proof
    assume "\<exists>j0\<in>set js. flows j0 j'"
    then obtain j0 where "j0 \<in> set js" "flows j0 j'" by blast
    with j'(2) assms(2) d(1) show ?thesis by (metis flows_id same_id)
  next
    assume "jb_id j' \<in> set (created_ids rs)"
    with d(2) assms(2) j'(2) show ?thesis by auto
  qed
qed

lemma run_gone:
  "job_run t rs js js' ds \<Longrightarrow> j \<in> set js \<Longrightarrow> jb_id j \<notin> jb_id ` set js' \<Longrightarrow>
   DeleteJob (jb_id j) \<in> snd ` set rs \<or> (\<exists>e. jb_expires_at j = Some e \<and> e < last (t # map fst rs))"
proof (induction arbitrary: j rule: job_run.induct)
  case (run_Cons now r js js1 ds1 rs t js' ds2)
  note step = by_rows_step [OF run_Cons.hyps(1-4)]
  have mono: "now \<le> last (t # map fst ((now, r) # rs))"
    using run_Cons.hyps(5) by (induction rule: job_run.induct) auto
  from step(4) run_Cons.prems(1) consider j1 where "j1 \<in> set js1" "jb_id j1 = jb_id j" | "r = DeleteJob (jb_id j)" | "expired now j"
    by force
  then show ?case
  proof cases
    case 1
    with step(3) run_Cons.prems(1) have "jb_expires_at j1 = jb_expires_at j" using flows_id by blast
    with 1 run_Cons.IH [of j1] run_Cons.prems(2) show ?thesis by auto
  next
    case 3
    with mono show ?thesis by (auto simp: expired_def split: option.splits)
  qed auto
qed auto

lemma run_given:
  "job_run t rs js js' ds \<Longrightarrow> distinct (map jd_job_id ds) \<and>
   (\<forall>d\<in>set ds. (\<exists>j\<in>set js. jb_id j = jd_job_id d \<and> jb_status j = J_PENDING) \<or> jd_job_id d \<in> set (created_ids rs))"
proof (induction rule: job_run.induct)
  case (run_Cons now r js js1 ds1 rs t js' ds2)
  note step = by_rows_step [OF run_Cons.hyps(1-4)]
  have cr: "set (created_ids ((now, r) # rs)) = set (created_ids [(now, r)]) \<union> set (created_ids rs)"
    by (subst created_ids_Cons) simp
  have later: "(\<exists>j\<in>set js. jb_id j = jd_job_id d \<and> jb_status j = J_PENDING) \<or> jd_job_id d \<in> set (created_ids ((now, r) # rs))"
    if "d \<in> set ds2" for d
  proof -
    from that run_Cons.IH consider j1 where "j1 \<in> set js1" "jb_id j1 = jd_job_id d" "jb_status j1 = J_PENDING"
      | "jd_job_id d \<in> set (created_ids rs)" by blast
    then show ?thesis
    proof cases
      case 1
      with step(6) consider j where "j \<in> set js" "flows j j1" | "jb_id j1 \<in> set (created_ids [(now, r)])" by blast
      then show ?thesis
      proof cases
        case (1 j)
        then have "jb_status j = J_PENDING" "jb_id j = jd_job_id d"
          using \<open>jb_status j1 = J_PENDING\<close> \<open>jb_id j1 = jd_job_id d\<close> flows_id [of j j1]
          by (cases "jb_status j"; simp add: flows_def)+
        with 1 show ?thesis by blast
      qed (use 1 cr in auto)
    qed (simp add: cr)
  qed
  have "jd_job_id d1 \<noteq> jd_job_id d2" if "d1 \<in> set ds1" "d2 \<in> set ds2" for d1 d2
  proof
    assume eq: "jd_job_id d1 = jd_job_id d2"
    from that(1) step(5) obtain j where j: "j \<in> set js" "jb_id j = jd_job_id d1"
      and gone: "\<forall>j1\<in>set js1. jb_id j1 = jd_job_id d1 \<longrightarrow> jb_status j1 \<noteq> J_PENDING" by blast
    have "jd_job_id d1 \<notin> set (created_ids rs)" using j run_Cons.hyps(2) by auto
    with that(2) run_Cons.IH eq gone show False by metis
  qed
  then have "distinct (map jd_job_id (ds1 @ ds2))"
    using run_Cons.IH step(7) by (auto simp: image_iff)
  with later step(5) show ?case by auto
qed simp

section \<open>Properties\<close>

text \<open>C32: Whatever requests the server takes, with ids never reused and a clock that does not run
  back, every row stays consistent: its status, stamps and outcome fit each other and the stamps
  are in order. A job keeps everything but its status, stamps and outcome, its status only moves
  forward, a stamp is set once, a finished job never changes again, and a job disappears only if
  someone deletes it or its retention has passed.\<close>

theorem jobs_move_forward:
  assumes "serve_all W rs (ags, js) = ((ags', js'), ds)"
    and "distinct (map jb_id js @ created_ids rs)" and "sorted (t # map fst rs)" and "\<forall>j\<in>set js. job_ok t j"
  shows "(\<forall>j\<in>set js'. job_ok (last (t # map fst rs)) j) \<and>
    (\<forall>j\<in>set js. case get_job js' (jb_id j) of
        Some j' \<Rightarrow> flows j j'
      | None \<Rightarrow> DeleteJob (jb_id j) \<in> snd ` set rs \<or> (\<exists>e. jb_expires_at j = Some e \<and> e < last (t # map fst rs)))"
proof (intro conjI ballI)
  note run = serve_all_run [OF assms]
  show "job_ok (last (t # map fst rs)) j" if "j \<in> set js'" for j using run_ok [OF run] that by blast
  show "case get_job js' (jb_id j) of Some j' \<Rightarrow> flows j j'
      | None \<Rightarrow> DeleteJob (jb_id j) \<in> snd ` set rs \<or> (\<exists>e. jb_expires_at j = Some e \<and> e < last (t # map fst rs))"
    if j: "j \<in> set js" for j
  proof (cases "get_job js' (jb_id j)")
    case None
    then have "jb_id j \<notin> jb_id ` set js'" by (simp add: get_job_None)
    then have "DeleteJob (jb_id j) \<in> snd ` set rs \<or> (\<exists>e. jb_expires_at j = Some e \<and> e < last (t # map fst rs))"
      by (rule run_gone [OF run j])
    then show ?thesis by (simp only: None option.case)
  next
    case (Some j')
    with run_ok [OF run] have "j' \<in> set js'" "jb_id j' = jb_id j" by (simp_all add: get_job_iff)
    then show ?thesis by (simp add: Some run_flows [OF run j])
  qed
qed

text \<open>C33: Over any such run each job is handed out at most once, to no heartbeat after it was cancelled,
  finished or handed out, and what is handed out was pending or has been created since.\<close>

theorem dispatched_once:
  assumes "serve_all W rs (ags, js) = ((ags', js'), ds)"
    and "distinct (map jb_id js @ created_ids rs)" and "sorted (t # map fst rs)" and "\<forall>j\<in>set js. job_ok t j"
  shows "distinct (map jd_job_id ds) \<and>
    (\<forall>d\<in>set ds. (\<exists>j\<in>set js. jb_id j = jd_job_id d \<and> jb_status j = J_PENDING) \<or> jd_job_id d \<in> set (created_ids rs))"
  by (rule run_given [OF serve_all_run [OF assms]])

text \<open>C35: A heartbeat takes its agent's pending jobs by priority, then age, up to the limit: it hands
  out exactly those, marks exactly those assigned, changes no other row, and leaves behind only jobs
  that rank no higher; the limit is reached unless nothing pending is left.\<close>

theorem dispatch_exact:
  assumes d: "distinct (map jb_id js)" and s: "get_jobs_for_dispatch W js aid now = Inr (js', ds)"
  shows "let mine = filter (\<lambda>j. jb_agent_id j = Some aid \<and> jb_status j = J_PENDING) js;
             given = (\<lambda>j. jb_id j \<in> jd_job_id ` set ds)
    in js' = map (\<lambda>j. if given j then assign now j else j) js \<and>
       length ds = min (job_max_dispatch_per_heartbeat W) (length mine) \<and>
       set ds = job_to_dispatch W ` {j \<in> set mine. given j} \<and>
       sorted (map (\<lambda>x. - jd_priority x) ds) \<and>
       (\<forall>j\<in>set mine. \<forall>k\<in>set mine. given j \<and> \<not> given k \<longrightarrow>
          jb_priority k < jb_priority j \<or> jb_priority k = jb_priority j \<and> jb_created_at j \<le> jb_created_at k)"
proof -
  let ?key = "\<lambda>j. (- jb_priority j, jb_created_at j)" and ?n = "job_max_dispatch_per_heartbeat W"
  define mine where "mine = filter (\<lambda>j. jb_agent_id j = Some aid \<and> jb_status j = J_PENDING) js"
  define picked where "picked = first_by ?key ?n mine"
  have p: "picked = get_pending_for_agent js aid ?n" by (simp add: picked_def mine_def get_pending_for_agent_def)
  have js': "js' = map (\<lambda>j. if j \<in> set picked then assign now j else j) js"
    and ds: "ds = map (job_to_dispatch W) picked" using s by (simp_all add: dispatch_rows [OF d] p)
  have sub: "set picked \<subseteq> set mine" unfolding picked_def by (rule set_first_by)
  have given: "jb_id j \<in> jd_job_id ` set ds \<longleftrightarrow> j \<in> set picked" if "j \<in> set js" for j
  proof
    assume "jb_id j \<in> jd_job_id ` set ds"
    then obtain q where "q \<in> set picked" "jb_id q = jb_id j" by (auto simp: ds job_to_dispatch_def)
    with sub that d show "j \<in> set picked" by (metis filter_is_subset mine_def same_id subsetD)
  qed (force simp: ds job_to_dispatch_def)
  have left: "?key j \<le> ?key k" if "j \<in> set picked" "k \<in> set mine" "k \<notin> set picked" for j k
  proof (rule first_by_le [where key = ?key and n = ?n and rows = mine])
    show "j \<in> set (first_by ?key ?n mine)" using that(1) by (simp add: picked_def)
    have "k \<in> set (take ?n (sort_key ?key mine) @ drop ?n (sort_key ?key mine))" using that(2) by simp
    with that(3) show "k \<in> set (drop ?n (sort_key ?key mine))" unfolding picked_def first_by_def by (metis Un_iff set_append)
  qed
  have "sorted (map ?key picked)" by (simp add: picked_def first_by_def sorted_wrt_take take_map [symmetric])
  then have "sorted (map (\<lambda>j. - jb_priority j) picked)"
    unfolding sorted_map by (rule sorted_wrt_mono_rel [rotated]) (auto simp: less_eq_prod_def)
  then have srt: "sorted (map (\<lambda>x. - jd_priority x) ds)" by (simp add: ds job_to_dispatch_def comp_def)
  show ?thesis
    unfolding Let_def mine_def [symmetric]
  proof (intro conjI ballI impI)
    show "js' = map (\<lambda>j. if jb_id j \<in> jd_job_id ` set ds then assign now j else j) js"
      unfolding js' by (rule map_cong) (simp_all add: given)
    show "length ds = min ?n (length mine)" by (simp add: ds picked_def length_first_by)
    show "set ds = job_to_dispatch W ` {j \<in> set mine. jb_id j \<in> jd_job_id ` set ds}"
    proof -
      have "{j \<in> set mine. jb_id j \<in> jd_job_id ` set ds} = set picked"
        using sub given by (auto simp: mine_def)
      then show ?thesis by (simp add: ds)
    qed
  next
    fix j k
    assume "j \<in> set mine" "k \<in> set mine" "jb_id j \<in> jd_job_id ` set ds \<and> jb_id k \<notin> jd_job_id ` set ds"
    then have "?key j \<le> ?key k" using given left by (auto simp: mine_def)
    then show "jb_priority k < jb_priority j \<or> jb_priority k = jb_priority j \<and> jb_created_at j \<le> jb_created_at k"
      by (auto simp: less_eq_prod_def)
  qed (rule srt)
qed

text \<open>C36: A cancellation that lands between a heartbeat's read and its commit is undone: the user is told
  the job is cancelled, the commit then writes it assigned, with the finish time of the cancellation
  still on it, and the job goes out to the agent.\<close>

theorem cancel_undone_by_dispatch:
  assumes d: "distinct (map jb_id js)"
    and p: "j \<in> set (get_pending_for_agent js aid (job_max_dispatch_per_heartbeat W))"
    and c: "cancel_job js tc (jb_id j) = (js1, told)" and fresh: "jb_completed_at j = None"
    and w: "commit_assigned (get_pending_jobs_for_agent W js aid now) js1 = Inr js2"
  shows "map_option jb_status told = Some J_CANCELLED \<and>
    job_to_dispatch W j \<in> job_to_dispatch W ` set (get_pending_jobs_for_agent W js aid now) \<and>
    (\<exists>j2. get_job js2 (jb_id j) = Some j2 \<and> jb_status j2 = J_ASSIGNED \<and> jb_completed_at j2 = Some tc)"
proof (intro conjI)
  have j: "j \<in> set js" "jb_status j = J_PENDING" using pending_rows [OF p] by auto
  then have mv: "movable J_CANCELLED j" by (simp add: movable_def is_terminal_def FINISHED_def)
  have "find (\<lambda>x. jb_id x = jb_id j \<and> movable J_CANCELLED x) js = Some j"
    using d j mv by (induction js) (auto simp: image_iff)
  then show "map_option jb_status told = Some J_CANCELLED" using c by (auto simp: cancel_job_def move_open_job_def)
  show "job_to_dispatch W j \<in> job_to_dispatch W ` set (get_pending_jobs_for_agent W js aid now)"
    using p by (auto simp: get_pending_jobs_for_agent_def image_image)
  let ?c = "moved tc J_CANCELLED None None j" and ?picked = "get_pending_jobs_for_agent W js aid now"
  have js1: "js1 = map (\<lambda>x. if jb_id x = jb_id j \<and> movable J_CANCELLED x then moved tc J_CANCELLED None None x else x) js"
    using c by (simp add: cancel_job_def move_open_job_def)
  have "map jb_id js1 = map jb_id js" by (simp add: js1)
  then have ids: "distinct (map jb_id js1)" using d by (simp only:)
  have "?c \<in> set js1" using j mv by (force simp: js1)
  then have c2: "written ?picked ?c \<in> set js2" using w by (auto simp: commit_assigned_def split: if_splits)
  have "find (\<lambda>p. jb_id p = jb_id j) ?picked \<noteq> None"
    using p by (auto simp: find_None_iff get_pending_jobs_for_agent_def intro: bexI [of _ j])
  then obtain q where q: "find (\<lambda>p. jb_id p = jb_id j) ?picked = Some q" by blast
  then have "jb_status q = J_ASSIGNED" by (auto simp: find_Some_iff get_pending_jobs_for_agent_def)
  with q have "jb_status (written ?picked ?c) = J_ASSIGNED" "jb_completed_at (written ?picked ?c) = Some tc"
    by (simp_all add: written_def moved_def FINISHED_def coalesce_def fresh)
  moreover have "map jb_id js2 = map jb_id js1"
    using w by (auto simp: commit_assigned_def written_def split: if_splits option.split)
  ultimately show "\<exists>j2. get_job js2 (jb_id j) = Some j2 \<and> jb_status j2 = J_ASSIGNED \<and> jb_completed_at j2 = Some tc"
    using c2 ids by (intro exI [of _ "written ?picked ?c"]) (simp add: get_job_iff written_def split: option.split)
qed

text \<open>The requests about one job.\<close>

fun about_job :: "uuid \<Rightarrow> job_request \<Rightarrow> bool" where
  "about_job i (StartJob k) = (k = i)"
| "about_job i (SubmitResult k _) = (k = i)"
| "about_job i (CancelJob k) = (k = i)"
| "about_job i (DeleteJob k) = (k = i)"
| "about_job i _ = False"

lemma serve_untouched:
  assumes s: "serve W now r (ags, js) = ((ags', js'), ds)" and d: "distinct (map jb_id js)"
    and j: "j \<in> set js" "jb_status j = J_ASSIGNED" and r: "\<not> about_job (jb_id j) r"
  shows "j \<in> set js'"
proof (cases r)
  case (Heartbeat aid)
  with s j show ?thesis by (auto simp: dispatch_rows [OF d] committed_def dest!: pending_rows)
next
  case (CreateJob i data who)
  with s j show ?thesis
    by (auto simp: committed_def create_job_def res_bind_def Let_def split: if_splits sum.splits)
next
  case (SubmitResult i data)
  have "j \<in> set (fst (move_open_job js now i st res err))" for st res err
    using j r SubmitResult by (auto simp: move_open_job_def image_iff intro!: bexI [of _ j])
  then have "j \<in> set (fst (committed (submit_job_result W js now i data) (js, None)))"
    using j(1) by (auto simp: committed_def submit_job_result_def res_bind_def split: sum.split option.split prod.split)
      (metis fst_conv)+
  with s SubmitResult show ?thesis by simp
qed (use s j r in \<open>auto simp: committed_def mark_job_started_def update_job_status_def cancel_job_def move_open_job_def
       delete_job_def purge_expired_jobs_def expired_def is_terminal_def FINISHED_def case_prod_beta image_iff
       split: option.splits intro!: bexI [of _ j]\<close>)

text \<open>C37: A job whose dispatch the agent never received (the heartbeat's answer was lost, or the agent
  stopped before it ran the job) stays assigned for good: whatever else the server is asked, at any
  time, it is not handed out again, not failed, and not purged, past its retention too, until
  someone cancels or deletes it by hand.\<close>

theorem lost_dispatch_stuck:
  assumes "serve_all W rs (ags, js) = ((ags', js'), ds)" and "distinct (map jb_id js @ created_ids rs)"
    and "j \<in> set js" and "jb_status j = J_ASSIGNED" and "\<forall>(now, r)\<in>set rs. \<not> about_job (jb_id j) r"
  shows "get_job js' (jb_id j) = Some j \<and> jb_id j \<notin> jd_job_id ` set ds"
  using assms
proof (induction rs arbitrary: ags js ds)
  case Nil
  then show ?case by (auto simp: get_job_iff)
next
  case (Cons x rs)
  obtain now r where x: "x = (now, r)" by force
  obtain ags1 js1 ds1 ds2 where s: "serve W now r (ags, js) = ((ags1, js1), ds1)"
    and rest: "serve_all W rs (ags1, js1) = ((ags', js'), ds2)" and ds: "ds = ds1 @ ds2"
    using Cons.prems(1) unfolding x by (auto simp: Let_def split: prod.splits)
  have d: "distinct (map jb_id js @ created_ids [(now, r)] @ created_ids rs)"
    using Cons.prems(2) unfolding x by (subst (asm) created_ids_Cons)
  then have b: "by_rows now r js js1 ds1" using s serve_by_rows by auto
  have d1: "distinct (map jb_id js1 @ created_ids rs)" by (rule by_rows_ids [OF b d])
  have "j \<in> set js1" by (rule serve_untouched [OF s _ Cons.prems(3,4)]) (use d Cons.prems(5) x in auto)
  moreover have "jb_id j \<notin> jd_job_id ` set ds1"
  proof
    assume "jb_id j \<in> jd_job_id ` set ds1"
    then obtain k where "k \<in> set js" "jb_id k = jb_id j" "jb_status k = J_PENDING"
      using b unfolding by_rows_def by force
    with d Cons.prems(3,4) same_id [of js k j] show False by simp
  qed
  ultimately show ?case using Cons.IH [OF rest d1] Cons.prems(4,5) by (auto simp: ds)
qed

section \<open>Witnesses\<close>

definition demo_job_world :: job_world where
  "demo_job_world = \<lparr>params_schema = (\<lambda>_ p. Some p), enrich_job_result = (\<lambda>_ r. Inr r),
     job_timeout_setting = (\<lambda>_. 300), job_retention_days = 7, job_max_dispatch_per_heartbeat = 1\<rparr>"

definition scan_of :: "uuid \<Rightarrow> int \<Rightarrow> Job" where
  "scan_of i prio = \<lparr>jb_id = i, jb_type = NETWORK_SCAN, jb_agent_id = Some 1, jb_params = [], jb_status = J_PENDING,
     jb_priority = prio, jb_created_at = 0, jb_assigned_at = None, jb_started_at = None, jb_completed_at = None,
     jb_expires_at = Some 1000, jb_result = None, jb_error = None, jb_created_by = None, jb_tags = None,
     jb_schedule = None, jb_automation_config = None\<rparr>"

definition demo_requests :: "(instant \<times> job_request) list" where
  "demo_requests = [(1, Heartbeat 1), (2, StartJob 11), (3, CancelJob 10), (4, Heartbeat 1),
     (5, SubmitResult 11 \<lparr>jr_status = J_COMPLETED, jr_result = None, jr_error = None\<rparr>)]"

lemmas job_demo_simps = demo_job_world_def scan_of_def demo_requests_def job_ok_def is_terminal_def FINISHED_def
  created_ids_def get_jobs_for_dispatch_def get_pending_jobs_for_agent_def get_pending_for_agent_def first_by_def
  commit_assigned_def written_def get_job_def assign_def committed_def job_to_dispatch_def mark_job_started_def
  update_job_status_def move_open_job_def movable_def moved_def coalesce_def submit_job_result_def cancel_job_def

text \<open>Two scans: the urgent one runs and completes, the other is cancelled before its turn.\<close>

lemma demo_job_run:
  "serve_all demo_job_world demo_requests ([], [scan_of 10 1, scan_of 11 5]) =
    (([], [(scan_of 10 1)\<lparr>jb_status := J_CANCELLED, jb_completed_at := Some 3\<rparr>,
           (scan_of 11 5)\<lparr>jb_status := J_COMPLETED, jb_assigned_at := Some 1, jb_started_at := Some 2,
              jb_completed_at := Some 5, jb_result := Some []\<rparr>]),
     [job_to_dispatch demo_job_world (scan_of 11 5)])"
  by (simp add: job_demo_simps)

theorem jobs_move_forward_witness:
  "flows (scan_of 11 5) ((scan_of 11 5)\<lparr>jb_status := J_COMPLETED, jb_assigned_at := Some 1, jb_started_at := Some 2,
      jb_completed_at := Some 5, jb_result := Some []\<rparr>)"
proof -
  have "\<forall>j\<in>set [scan_of 10 1, scan_of 11 5]. job_ok 0 j" by (simp add: job_demo_simps)
  from jobs_move_forward [OF demo_job_run _ _ this, THEN conjunct2, THEN bspec, of "scan_of 11 5"]
  show ?thesis by (simp add: demo_requests_def created_ids_def scan_of_def get_job_def)
qed

theorem dispatched_once_witness: "distinct (map jd_job_id [job_to_dispatch demo_job_world (scan_of 11 5)])"
  by (rule dispatched_once [OF demo_job_run, of 0, THEN conjunct1]) (simp_all add: job_demo_simps)

theorem dispatch_exact_witness:
  "fst (projr (get_jobs_for_dispatch demo_job_world [scan_of 10 1, scan_of 11 5] 1 3)) = [scan_of 10 1, assign 3 (scan_of 11 5)]"
proof -
  have run: "get_jobs_for_dispatch demo_job_world [scan_of 10 1, scan_of 11 5] 1 3 =
      Inr ([scan_of 10 1, assign 3 (scan_of 11 5)], [job_to_dispatch demo_job_world (scan_of 11 5)])"
    by (simp add: job_demo_simps)
  have "distinct (map jb_id [scan_of 10 1, scan_of 11 5])" by (simp add: scan_of_def)
  from dispatch_exact [OF this run] show ?thesis
    unfolding run by (simp add: Let_def job_to_dispatch_def scan_of_def)
qed

theorem cancel_undone_by_dispatch_witness:
  "map_option jb_status (snd (cancel_job [scan_of 10 1] 2 10)) = Some J_CANCELLED \<and>
   (\<exists>j2. get_job (projr (commit_assigned (get_pending_jobs_for_agent demo_job_world [scan_of 10 1] 1 3)
      (fst (cancel_job [scan_of 10 1] 2 10)))) 10 = Some j2 \<and> jb_status j2 = J_ASSIGNED)"
proof -
  let ?js = "[scan_of 10 1]"
  obtain js1 told where c: "cancel_job ?js 2 10 = (js1, told)" by force
  have w: "commit_assigned (get_pending_jobs_for_agent demo_job_world ?js 1 3) js1 =
      Inr (projr (commit_assigned (get_pending_jobs_for_agent demo_job_world ?js 1 3) js1))"
    using c by (auto simp: job_demo_simps)
  have i: "jb_id (scan_of 10 1) = 10" by (simp add: scan_of_def)
  have "distinct (map jb_id ?js)"
    "scan_of 10 1 \<in> set (get_pending_for_agent ?js 1 (job_max_dispatch_per_heartbeat demo_job_world))"
    "jb_completed_at (scan_of 10 1) = None" by (simp_all add: job_demo_simps)
  moreover have "cancel_job ?js 2 (jb_id (scan_of 10 1)) = (js1, told)" by (simp only: i c)
  ultimately have "map_option jb_status told = Some J_CANCELLED \<and>
    job_to_dispatch demo_job_world (scan_of 10 1)
      \<in> job_to_dispatch demo_job_world ` set (get_pending_jobs_for_agent demo_job_world ?js 1 3) \<and>
    (\<exists>j2. get_job (projr (commit_assigned (get_pending_jobs_for_agent demo_job_world ?js 1 3) js1)) (jb_id (scan_of 10 1)) =
      Some j2 \<and> jb_status j2 = J_ASSIGNED \<and> jb_completed_at j2 = Some 2)"
    using w by (intro cancel_undone_by_dispatch)
  then
  show ?thesis unfolding c fst_conv snd_conv i by blast
qed

theorem lost_dispatch_stuck_witness:
  "get_job (snd (fst (serve_all demo_job_world [(10 ^ 12, Heartbeat 1), (2 * 10 ^ 12, PurgeJobs)]
     ([], [assign 1 (scan_of 10 1)])))) 10 = Some (assign 1 (scan_of 10 1))"
proof -
  let ?rs = "[(10 ^ 12, Heartbeat 1), (2 * 10 ^ 12, PurgeJobs)] :: (instant \<times> job_request) list"
  obtain ags' js' ds where run: "serve_all demo_job_world ?rs ([], [assign 1 (scan_of 10 1)]) = ((ags', js'), ds)"
    by (metis surj_pair)
  have "get_job js' (jb_id (assign 1 (scan_of 10 1))) = Some (assign 1 (scan_of 10 1))"
    by (rule lost_dispatch_stuck [OF run, THEN conjunct1]) (simp_all add: created_ids_def scan_of_def)
  then show ?thesis by (simp only: run fst_conv snd_conv) (simp add: scan_of_def)
qed

end
