(* ===== verification/JobProcessor.thy ===== *)
theory JobProcessor
  imports Jobs
begin

text \<open>
  The agent's side of a job (\<^verbatim>\<open>app/agent/job_processor.py\<close>, \<^verbatim>\<open>shared/jobs/base.py\<close>) and how it
  meets the server: jobs from a heartbeat's answer go into a priority queue, one worker takes them
  one at a time, tells the server it started, runs the job under its timeout and posts one result.
  Every failure on the way becomes a failed result, except a post that does not arrive.

  What the job does, which job types are registered and which posts arrive are parameters.
\<close>

section \<open>The processor\<close>

type_synonym entry = "int \<times> nat \<times> JobDispatch"

record processor =
  job_queue :: "entry list"
  pr_sequence :: nat
  pr_running :: bool
  completed_since_last :: nat
  failed_since_last :: nat
  total_completed :: nat
  total_failed :: nat

text \<open>What \<open>execute()\<close> does within the job's timeout.\<close>

datatype job_outcome = Returned dict | Raised string | Overran

record agent_world =
  registered :: "JobType \<Rightarrow> bool"
  handler_error :: "JobDispatch \<Rightarrow> string option"
  execute :: "JobDispatch \<Rightarrow> job_outcome"
  notice_arrives :: "uuid \<Rightarrow> bool"
  result_arrives :: "uuid \<Rightarrow> bool"
  storable :: "JobResultSubmit \<Rightarrow> bool"

text \<open>The heap pops the least entry; no two have the same sequence number.\<close>

definition rank_of :: "entry \<Rightarrow> int \<times> nat" where
  "rank_of e = (fst e, fst (snd e))"

definition queue_put :: "entry \<Rightarrow> entry list \<Rightarrow> entry list" where
  "queue_put e q = insort_key rank_of e q"

fun enqueue_jobs :: "JobDispatch list \<Rightarrow> processor \<Rightarrow> processor" where
  "enqueue_jobs [] p = p"
| "enqueue_jobs (d # ds) p =
     enqueue_jobs ds (p\<lparr>job_queue := queue_put (- jd_priority d, pr_sequence p, d) (job_queue p),
                        pr_sequence := Suc (pr_sequence p)\<rparr>)"

section \<open>Running one job\<close>

definition failed_result :: "string \<Rightarrow> JobResultSubmit" where
  "failed_result e = \<lparr>jr_status = J_FAILED, jr_result = None, jr_error = Some e\<rparr>"

fun job_type_str :: "JobType \<Rightarrow> string" where
  "job_type_str NETWORK_SCAN = ''network_scan''"
| "job_type_str NETWORK_DISCOVER = ''network_discover''"

text \<open>\<open>BaseJob.run\<close> under \<open>wait_for\<close>: no value when the timeout struck.\<close>

fun run_job :: "job_outcome \<Rightarrow> JobResultSubmit option" where
  "run_job (Returned r) = Some \<lparr>jr_status = J_COMPLETED, jr_result = Some r, jr_error = None\<rparr>"
| "run_job (Raised e) = Some (failed_result e)"
| "run_job Overran = None"

definition timeout_error :: "JobDispatch \<Rightarrow> string" where
  "timeout_error d = ''Job timed out after '' @ int_str (jd_timeout_seconds d) @ '' seconds''"

text \<open>Whether the job gets to start, and the result it is reported with.\<close>

definition job_starts :: "agent_world \<Rightarrow> JobDispatch \<Rightarrow> bool" where
  "job_starts A d \<longleftrightarrow> registered A (jd_type d) \<and> handler_error A d = None"

definition result_data :: "agent_world \<Rightarrow> JobDispatch \<Rightarrow> JobResultSubmit" where
  "result_data A d =
     (if \<not> registered A (jd_type d) then failed_result (''Unknown job type: '' @ job_type_str (jd_type d))
      else case handler_error A d of
        Some e \<Rightarrow> failed_result (''Failed to create job handler: '' @ e)
      | None \<Rightarrow>
          case run_job (execute A d) of
            Some r \<Rightarrow> r
          | None \<Rightarrow> failed_result (timeout_error d))"

definition count_result :: "JobResultSubmit \<Rightarrow> processor \<Rightarrow> processor" where
  "count_result r p =
     (if jr_status r = J_COMPLETED
      then p\<lparr>completed_since_last := completed_since_last p + 1, total_completed := total_completed p + 1\<rparr>
      else p\<lparr>failed_since_last := failed_since_last p + 1, total_failed := total_failed p + 1\<rparr>)"

text \<open>The server's schema of a result; a post it refuses, or that does not arrive, changes nothing.\<close>

definition MAX_JOB_ERROR :: nat where "MAX_JOB_ERROR = 5000"

definition valid_result :: "agent_world \<Rightarrow> JobResultSubmit \<Rightarrow> bool" where
  "valid_result A r \<longleftrightarrow> storable A r \<and>
     (case jr_error r of None \<Rightarrow> True | Some e \<Rightarrow> length e \<le> MAX_JOB_ERROR)"

definition notify_started :: "agent_world \<Rightarrow> job_world \<Rightarrow> instant \<Rightarrow> uuid \<Rightarrow> job_state \<Rightarrow> job_state" where
  "notify_started A W now jid s =
     (if notice_arrives A jid then fst (serve W now (StartJob jid) s) else s)"

definition submit_result :: "agent_world \<Rightarrow> job_world \<Rightarrow> instant \<Rightarrow> uuid \<Rightarrow> JobResultSubmit \<Rightarrow> job_state \<Rightarrow> job_state" where
  "submit_result A W now jid r s =
     (if result_arrives A jid \<and> valid_result A r then fst (serve W now (SubmitResult jid r) s) else s)"

definition execute_job ::
    "agent_world \<Rightarrow> job_world \<Rightarrow> instant \<times> instant \<Rightarrow> JobDispatch \<Rightarrow> processor \<times> job_state \<Rightarrow> processor \<times> job_state" where
  "execute_job A W t d c =
     (let (p, s) = c;
          s1 = (if job_starts A d then notify_started A W (fst t) (jd_job_id d) s else s);
          r = result_data A d
      in (count_result r p, submit_result A W (snd t) (jd_job_id d) r s1))"

text \<open>One turn of the worker: with an empty queue it times out and goes round.\<close>

definition worker_round ::
    "agent_world \<Rightarrow> job_world \<Rightarrow> instant \<times> instant \<Rightarrow> processor \<times> job_state \<Rightarrow> processor \<times> job_state" where
  "worker_round A W t c =
     (let (p, s) = c in
      if \<not> pr_running p then c
      else case job_queue p of
        [] \<Rightarrow> c
      | e # q \<Rightarrow> execute_job A W t (snd (snd e)) (p\<lparr>job_queue := q\<rparr>, s))"

definition get_stats :: "processor \<Rightarrow> (nat \<times> nat \<times> nat) \<times> processor" where
  "get_stats p =
     ((length (job_queue p), completed_since_last p, failed_since_last p),
      p\<lparr>completed_since_last := 0, failed_since_last := 0\<rparr>)"

section \<open>Working the queue off\<close>

lemma worker_round_queue:
  "job_queue (fst (worker_round A W t c)) = (if pr_running (fst c) then tl (job_queue (fst c)) else job_queue (fst c))"
  by (cases c) (auto simp: worker_round_def execute_job_def count_result_def Let_def split: list.split)

lemma worker_round_running [simp]: "pr_running (fst (worker_round A W t c)) = pr_running (fst c)"
  by (cases c) (auto simp: worker_round_def execute_job_def count_result_def Let_def split: list.split)

function work_off ::
    "agent_world \<Rightarrow> job_world \<Rightarrow> (nat \<Rightarrow> instant \<times> instant) \<Rightarrow> nat \<Rightarrow> processor \<times> job_state \<Rightarrow> processor \<times> job_state" where
  "work_off A W clock n c =
     (if pr_running (fst c) \<and> job_queue (fst c) \<noteq> [] then work_off A W clock (Suc n) (worker_round A W (clock n) c) else c)"
  by pat_completeness auto

termination
  by (relation "measure (\<lambda>(A, W, clock, n, c). length (job_queue (fst c)))") (auto simp: worker_round_queue)

declare work_off.simps [simp del]

text \<open>Enqueuing sorts by priority, highest first, then by arrival.\<close>

definition queue_ok :: "processor \<Rightarrow> bool" where
  "queue_ok p \<longleftrightarrow> sorted (map rank_of (job_queue p)) \<and> (\<forall>e\<in>set (job_queue p). fst (snd e) < pr_sequence p) \<and>
     (\<forall>e\<in>set (job_queue p). fst e = - jd_priority (snd (snd e))) \<and> distinct (map (\<lambda>e. fst (snd e)) (job_queue p))"

lemma set_queue_put [simp]: "set (queue_put e q) = insert e (set q)"
  by (simp add: queue_put_def set_insort_key)

lemma mset_queue_put [simp]: "mset (queue_put e q) = add_mset e (mset q)"
  by (simp add: queue_put_def)

lemma distinct_queue_put: "distinct (map f (queue_put e q)) \<longleftrightarrow> f e \<notin> f ` set q \<and> distinct (map f q)"
proof -
  have "mset (map f (queue_put e q)) = mset (map f (e # q))" by simp
  then show ?thesis by (metis distinct.simps(2) list.set_map list.simps(9) mset_eq_imp_distinct_iff)
qed

lemma put_queue_ok:
  assumes "queue_ok p"
  shows "queue_ok (p\<lparr>job_queue := queue_put (- jd_priority d, pr_sequence p, d) (job_queue p),
                      pr_sequence := Suc (pr_sequence p)\<rparr>)"
proof -
  have "pr_sequence p \<notin> (\<lambda>e. fst (snd e)) ` set (job_queue p)"
    using assms by (auto simp: queue_ok_def)
  moreover have "sorted (map rank_of (queue_put e (job_queue p)))" for e
    using assms by (simp add: queue_ok_def queue_put_def sorted_insort_key)
  ultimately show ?thesis
    using assms by (auto simp: queue_ok_def distinct_queue_put less_Suc_eq)
qed

lemma enqueue_queue_ok: "queue_ok p \<Longrightarrow> queue_ok (enqueue_jobs ds p)"
  by (induction ds p rule: enqueue_jobs.induct) (simp_all add: put_queue_ok)

lemma enqueue_jobs_mset:
  "image_mset (\<lambda>e. snd (snd e)) (mset (job_queue (enqueue_jobs ds p))) =
   image_mset (\<lambda>e. snd (snd e)) (mset (job_queue p)) + mset ds"
  by (induction ds p rule: enqueue_jobs.induct) simp_all

lemma enqueue_jobs_running [simp]: "pr_running (enqueue_jobs ds p) = pr_running p"
  by (induction ds p rule: enqueue_jobs.induct) simp_all



section \<open>The worker as requests to the server\<close>

definition job_requests :: "agent_world \<Rightarrow> instant \<times> instant \<Rightarrow> JobDispatch \<Rightarrow> (instant \<times> job_request) list" where
  "job_requests A t d =
     (if job_starts A d \<and> notice_arrives A (jd_job_id d) then [(fst t, StartJob (jd_job_id d))] else []) @
     (if result_arrives A (jd_job_id d) \<and> valid_result A (result_data A d)
      then [(snd t, SubmitResult (jd_job_id d) (result_data A d))] else [])"

lemma serve_all_Cons: "fst (serve_all W (x # rs) s) = fst (serve_all W rs (fst (serve W (fst x) (snd x) s)))"
  by (cases x) (simp add: Let_def case_prod_beta)

lemma serve_all_append:
  "fst (serve_all W (rs @ rs') s) = fst (serve_all W rs' (fst (serve_all W rs s)))"
  by (induction rs arbitrary: s) (simp_all add: serve_all_Cons del: serve_all.simps(2))

lemma execute_job_serves: "snd (execute_job A W t d (p, s)) = fst (serve_all W (job_requests A t d) s)"
  by (simp add: execute_job_def Let_def submit_result_def notify_started_def job_requests_def serve_all_Cons
      del: serve_all.simps(2) serve.simps)

lemma created_ids_requests [simp]: "created_ids (job_requests A t d) = []"
  by (simp add: job_requests_def created_ids_def)

definition successes :: "agent_world \<Rightarrow> entry list \<Rightarrow> entry list" where
  "successes A q = filter (\<lambda>e. jr_status (result_data A (snd (snd e))) = J_COMPLETED) q"

lemma work_off_serves:
  "pr_running p \<Longrightarrow> work_off A W clock n (p, s) = (p', s') \<Longrightarrow>
   job_queue p' = [] \<and>
   s' = fst (serve_all W (concat (map (\<lambda>(k, e). job_requests A (clock k) (snd (snd e))) (zip [n..<n + length (job_queue p)] (job_queue p)))) s) \<and>
   total_completed p' = total_completed p + length (successes A (job_queue p)) \<and>
   total_completed p' + total_failed p' = total_completed p + total_failed p + length (job_queue p)"
proof (induction "job_queue p" arbitrary: p s n)
  case Nil
  then show ?case by (simp add: work_off.simps successes_def)
next
  case (Cons e q)
  obtain p1 s1 where r: "worker_round A W (clock n) (p, s) = (p1, s1)" by (rule prod.exhaust)
  have x: "execute_job A W (clock n) (snd (snd e)) (p\<lparr>job_queue := q\<rparr>, s) = (p1, s1)"
    using r Cons.prems(1) Cons.hyps(2) [symmetric] by (simp add: worker_round_def)
  then have s1: "s1 = fst (serve_all W (job_requests A (clock n) (snd (snd e))) s)"
    using execute_job_serves [of A W "clock n" "snd (snd e)" "p\<lparr>job_queue := q\<rparr>" s] by simp
  have p1: "p1 = count_result (result_data A (snd (snd e))) (p\<lparr>job_queue := q\<rparr>)" using x by (simp add: execute_job_def Let_def)
  have q: "q = job_queue p1" "pr_running p1" using Cons.prems(1) by (simp_all add: p1 count_result_def)
  have "work_off A W clock (Suc n) (p1, s1) = (p', s')"
    using Cons.prems Cons.hyps(2) [symmetric] r by (subst (asm) work_off.simps) simp
  from Cons.hyps(1) [OF q this] show ?case
    using s1 q(1) [symmetric] Cons.hyps(2) [symmetric]
    by (auto simp: serve_all_append upt_rec successes_def p1 count_result_def)
qed

section \<open>Every delivered job finishes\<close>






text \<open>The job's result arrives, passes the schema and can be enriched.\<close>

definition reliable :: "agent_world \<Rightarrow> job_world \<Rightarrow> uuid \<Rightarrow> bool" where
  "reliable A W i \<longleftrightarrow> result_arrives A i \<and> (\<forall>d. jd_job_id d = i \<longrightarrow> valid_result A (result_data A d)) \<and>
     (\<forall>ty r. \<not> isl (enrich_job_result W ty r))"






section \<open>Properties\<close>


text \<open>C34: Left alone, the worker empties its queue, the highest priority first and equal ones in the
  order they came, and the server sees exactly the requests of the jobs run one after the other in
  that order: for each its start notice, when it starts, then its one result, where they arrive.
  Every job run is counted, completed or failed.\<close>

theorem worker_by_priority:
  assumes "queue_ok p" and "pr_running p" and "work_off A W clock n (enqueue_jobs ds p, s) = (p', s')"
  shows "let q = job_queue (enqueue_jobs ds p) in
    job_queue p' = [] \<and>
    sorted_wrt (\<lambda>a b. jd_priority (snd (snd b)) < jd_priority (snd (snd a)) \<or>
      jd_priority (snd (snd b)) = jd_priority (snd (snd a)) \<and> fst (snd a) < fst (snd b)) q \<and>
    mset (map (\<lambda>e. snd (snd e)) q) = mset (map (\<lambda>e. snd (snd e)) (job_queue p)) + mset ds \<and>
    s' = fst (serve_all W (concat (map (\<lambda>(k, e). job_requests A (clock k) (snd (snd e))) (zip [n..<n + length q] q))) s) \<and>
    total_completed p' + total_failed p' = total_completed (enqueue_jobs ds p) + total_failed (enqueue_jobs ds p) + length q"
proof -
  let ?q = "job_queue (enqueue_jobs ds p)"
  have ok: "queue_ok (enqueue_jobs ds p)" by (rule enqueue_queue_ok [OF assms(1)])
  have "sorted_wrt (\<lambda>a b. rank_of a \<le> rank_of b \<and> fst (snd a) \<noteq> fst (snd b)) ?q"
    using ok by (auto simp: queue_ok_def sorted_map distinct_map sorted_wrt_iff_nth_less distinct_conv_nth)
  then have "sorted_wrt (\<lambda>a b. jd_priority (snd (snd b)) < jd_priority (snd (snd a)) \<or>
      jd_priority (snd (snd b)) = jd_priority (snd (snd a)) \<and> fst (snd a) < fst (snd b)) ?q"
    by (rule sorted_wrt_mono_rel [rotated]) (use ok in \<open>auto simp: queue_ok_def rank_of_def less_eq_prod_def\<close>)
  moreover note work_off_serves [OF _ assms(3)]
  ultimately show ?thesis
    using assms(2) enqueue_jobs_mset [of ds p] by (simp add: Let_def)
qed

section \<open>Witnesses\<close>

definition demo_agent_world :: agent_world where
  "demo_agent_world = \<lparr>registered = (\<lambda>_. True), handler_error = (\<lambda>_. None), execute = (\<lambda>_. Returned []),
     notice_arrives = (\<lambda>_. True), result_arrives = (\<lambda>_. True), storable = (\<lambda>_. True)\<rparr>"

definition idle_processor :: processor where
  "idle_processor = \<lparr>job_queue = [], pr_sequence = 0, pr_running = True, completed_since_last = 0,
     failed_since_last = 0, total_completed = 0, total_failed = 0\<rparr>"

lemmas processor_demo_simps = demo_agent_world_def idle_processor_def job_demo_simps reliable_def valid_result_def
  result_data_def job_starts_def failed_result_def MAX_JOB_ERROR_def queue_ok_def queue_put_def rank_of_def


theorem worker_by_priority_witness:
  "job_queue (fst (work_off demo_agent_world demo_job_world (\<lambda>_. (1, 2)) 0
      (enqueue_jobs [job_to_dispatch demo_job_world (scan_of 10 1), job_to_dispatch demo_job_world (scan_of 11 5)]
         idle_processor, ([], [])))) = [] \<and>
   map (\<lambda>e. jd_job_id (snd (snd e))) (job_queue (enqueue_jobs [job_to_dispatch demo_job_world (scan_of 10 1),
       job_to_dispatch demo_job_world (scan_of 11 5)] idle_processor)) = [11, 10]"
proof
  let ?ds = "[job_to_dispatch demo_job_world (scan_of 10 1), job_to_dispatch demo_job_world (scan_of 11 5)]"
  have "queue_ok idle_processor" "pr_running idle_processor" by (simp_all add: idle_processor_def queue_ok_def)
  moreover obtain p' s' where run: "work_off demo_agent_world demo_job_world (\<lambda>_. (1, 2)) 0
      (enqueue_jobs ?ds idle_processor, ([], [])) = (p', s')" by (rule prod.exhaust)
  ultimately have "job_queue p' = []" by (rule worker_by_priority [unfolded Let_def, THEN conjunct1])
  then show "job_queue (fst (work_off demo_agent_world demo_job_world (\<lambda>_. (1, 2)) 0 (enqueue_jobs ?ds idle_processor, ([], [])))) = []"
    by (simp only: run fst_conv)
  show "map (\<lambda>e. jd_job_id (snd (snd e))) (job_queue (enqueue_jobs ?ds idle_processor)) = [11, 10]"
    by (simp add: processor_demo_simps)
qed

end
