(* ===== verification/Maintenance.thy ===== *)
theory Maintenance
  imports Prelude "HOL-Library.Sublist"
begin

text \<open>
  The queue of maintenance jobs (\<^verbatim>\<open>crud/maintenance_job_crud.py\<close>,
  \<^verbatim>\<open>services/core/maintenance_job_core_service.py\<close>, \<^verbatim>\<open>background/maintenance_worker.py\<close>): long
  changes are stored as intent and run later by one worker, which claims the oldest job, runs the
  handler of its kind in its own transaction and records the outcome in a third. The process may be
  killed, or the recording fail, between any two of these; a restart fails what was left running.

  Parameters: the handlers, acting on data of any type, which parameters the configured key can
  read, and the masking of error texts.
\<close>

section \<open>Rows\<close>

datatype MaintenanceJobStatus = M_QUEUED | M_RUNNING | M_DONE | M_FAILED

record MaintenanceJob =
  mj_id :: uuid
  mj_kind :: string
  mj_target_id :: "uuid option"
  mj_params :: dict
  mj_status :: MaintenanceJobStatus
  mj_owner_id :: "uuid option"
  mj_progress :: "dict option"
  mj_error :: "string option"
  mj_created_at :: instant
  mj_started_at :: "instant option"
  mj_completed_at :: "instant option"

text \<open>A handler's error carries its text and, when it is a \<open>JobFailed\<close>, the progress to keep.\<close>

record 'd maint_world =
  HANDLERS :: "string \<Rightarrow> (MaintenanceJob \<Rightarrow> 'd \<Rightarrow> (string \<times> dict option) + 'd) option"
  readable :: "MaintenanceJob \<Rightarrow> bool"
  readable_error :: "string \<Rightarrow> string"

definition inflight :: "MaintenanceJob \<Rightarrow> bool" where
  "inflight j \<longleftrightarrow> mj_status j = M_QUEUED \<or> mj_status j = M_RUNNING"

section \<open>Enqueuing\<close>

text \<open>The partial unique index; \<open>NULL\<close> never conflicts.\<close>

definition conflicting :: "string \<Rightarrow> uuid option \<Rightarrow> MaintenanceJob \<Rightarrow> bool" where
  "conflicting kind target j \<longleftrightarrow> inflight j \<and> mj_kind j = kind \<and> target \<noteq> None \<and> mj_target_id j = target"

definition new_maintenance_job ::
    "instant \<Rightarrow> uuid \<Rightarrow> string \<Rightarrow> uuid option \<Rightarrow> dict \<Rightarrow> uuid option \<Rightarrow> MaintenanceJob" where
  "new_maintenance_job now i kind target params owner =
     \<lparr>mj_id = i, mj_kind = kind, mj_target_id = target, mj_params = params, mj_status = M_QUEUED,
      mj_owner_id = owner, mj_progress = None, mj_error = None, mj_created_at = now,
      mj_started_at = None, mj_completed_at = None\<rparr>"

definition insert_job ::
    "MaintenanceJob list \<Rightarrow> instant \<Rightarrow> uuid \<Rightarrow> string \<Rightarrow> uuid option \<Rightarrow> dict \<Rightarrow> uuid option \<Rightarrow>
     MaintenanceJob list \<times> MaintenanceJob option" where
  "insert_job rows now i kind target params owner =
     (if list_ex (conflicting kind target) rows then (rows, None)
      else let job = new_maintenance_job now i kind target params owner in (rows @ [job], Some job))"

definition get_inflight_for_target :: "MaintenanceJob list \<Rightarrow> string \<Rightarrow> uuid option \<Rightarrow> MaintenanceJob option" where
  "get_inflight_for_target rows kind target = find (conflicting kind target) rows"

datatype enqueue_error = RuntimeError

definition enqueue ::
    "MaintenanceJob list \<Rightarrow> instant \<Rightarrow> uuid \<Rightarrow> string \<Rightarrow> uuid option \<Rightarrow> dict \<Rightarrow> uuid option \<Rightarrow>
     enqueue_error + MaintenanceJob list \<times> MaintenanceJob" where
  "enqueue rows now i kind target params owner =
     (case insert_job rows now i kind target params owner of
        (rows', Some job) \<Rightarrow> Inr (rows', job)
      | (rows', None) \<Rightarrow>
          case get_inflight_for_target rows' kind target of
            None \<Rightarrow> Inl RuntimeError | Some job \<Rightarrow> Inr (rows', job))"

section \<open>The worker\<close>

definition update_row :: "uuid \<Rightarrow> (MaintenanceJob \<Rightarrow> MaintenanceJob) \<Rightarrow> MaintenanceJob list \<Rightarrow> MaintenanceJob list" where
  "update_row i f rows = map (\<lambda>j. if mj_id j = i then f j else j) rows"

definition claim_next :: "MaintenanceJob list \<Rightarrow> uuid option" where
  "claim_next rows =
     (case first_by mj_created_at 1 (filter (\<lambda>j. mj_status j = M_QUEUED) rows) of
        [] \<Rightarrow> None | j # _ \<Rightarrow> Some (mj_id j))"

definition mark_running :: "MaintenanceJob list \<Rightarrow> instant \<Rightarrow> uuid \<Rightarrow> MaintenanceJob list" where
  "mark_running rows now i = update_row i (\<lambda>j. j\<lparr>mj_status := M_RUNNING, mj_started_at := Some now\<rparr>) rows"

definition mark_done :: "MaintenanceJob list \<Rightarrow> instant \<Rightarrow> uuid \<Rightarrow> MaintenanceJob list" where
  "mark_done rows now i = update_row i (\<lambda>j. j\<lparr>mj_status := M_DONE, mj_completed_at := Some now\<rparr>) rows"

definition mark_failed :: "'d maint_world \<Rightarrow> MaintenanceJob list \<Rightarrow> instant \<Rightarrow> uuid \<Rightarrow> string \<Rightarrow> MaintenanceJob list" where
  "mark_failed W rows now i error =
     (let summary = readable_error W error;
          text = (if summary = [] then ''Job failed'' else summary)
      in update_row i (\<lambda>j. j\<lparr>mj_status := M_FAILED, mj_error := Some (take 2000 text), mj_completed_at := Some now\<rparr>) rows)"

definition update_progress :: "MaintenanceJob list \<Rightarrow> uuid \<Rightarrow> dict \<Rightarrow> MaintenanceJob list" where
  "update_progress rows i p = update_row i (\<lambda>j. j\<lparr>mj_progress := Some p\<rparr>) rows"

text \<open>The claim; it raises, and rolls back, when the job's parameters do not decrypt.\<close>

datatype claim_error = DatabaseException

definition claim_one :: "'d maint_world \<Rightarrow> MaintenanceJob list \<Rightarrow> instant \<Rightarrow>
    claim_error + MaintenanceJob list \<times> MaintenanceJob option" where
  "claim_one W rows now =
     (case claim_next rows of
        None \<Rightarrow> Inr (rows, None)
      | Some i \<Rightarrow>
          let rows' = mark_running rows now i in
          case find (\<lambda>j. mj_id j = i) rows' of
            None \<Rightarrow> Inr (rows', None)
          | Some job \<Rightarrow> if readable W job then Inr (rows', Some job) else Inl DatabaseException)"

definition run_handler :: "'d maint_world \<Rightarrow> MaintenanceJob \<Rightarrow> 'd \<Rightarrow> (string \<times> dict option) + 'd" where
  "run_handler W job d =
     (case HANDLERS W (mj_kind job) of
        None \<Rightarrow> Inl (''No handler registered for maintenance job kind '' @ mj_kind job, None)
      | Some h \<Rightarrow> h job d)"

definition finalize :: "'d maint_world \<Rightarrow> MaintenanceJob list \<Rightarrow> instant \<Rightarrow> uuid \<Rightarrow> (string \<times> dict option) option \<Rightarrow> MaintenanceJob list" where
  "finalize W rows now i failure =
     (case failure of
        None \<Rightarrow> mark_done rows now i
      | Some (error, progress) \<Rightarrow>
          let rows1 = (case progress of None \<Rightarrow> rows | Some p \<Rightarrow> update_progress rows i p)
          in mark_failed W rows1 now i (if error = [] then ''Unknown error'' else error))"

text \<open>
  Where a turn may be cut off: killed while the handler runs (its transaction is lost), or killed
  or failing after it, before the outcome is recorded.
\<close>

datatype cut = Whole | InHandler | AfterHandler

text \<open>The new rows and data, whether a job was claimed, and the ids of handlers that committed.\<close>

definition process_next_job ::
    "'d maint_world \<Rightarrow> instant \<Rightarrow> instant \<Rightarrow> cut \<Rightarrow> MaintenanceJob list \<times> 'd \<Rightarrow>
     claim_error + (MaintenanceJob list \<times> 'd) \<times> bool \<times> uuid list" where
  "process_next_job W t1 t2 stop_at s =
     (let (rows, d) = s in
      res_bind (claim_one W rows t1) (\<lambda>(rows1, claimed).
        case claimed of
          None \<Rightarrow> Inr ((rows1, d), False, [])
        | Some job \<Rightarrow>
            Inr (if stop_at = InHandler then ((rows1, d), True, [])
                 else case run_handler W job d of
                   Inl failure \<Rightarrow>
                     ((if stop_at = AfterHandler then rows1 else finalize W rows1 t2 (mj_id job) (Some failure), d), True, [])
                 | Inr d' \<Rightarrow>
                     ((if stop_at = AfterHandler then rows1 else finalize W rows1 t2 (mj_id job) None, d'), True, [mj_id job]))))"

definition mark_interrupted_on_restart :: "MaintenanceJob list \<Rightarrow> instant \<Rightarrow> MaintenanceJob list" where
  "mark_interrupted_on_restart rows now =
     map (\<lambda>j. if mj_status j = M_RUNNING
              then j\<lparr>mj_status := M_FAILED, mj_error := Some ''Interrupted by process restart'', mj_completed_at := Some now\<rparr>
              else j) rows"

definition delete_old_terminal :: "MaintenanceJob list \<Rightarrow> instant \<Rightarrow> MaintenanceJob list" where
  "delete_old_terminal rows cutoff =
     filter (\<lambda>j. \<not> ((mj_status j = M_DONE \<or> mj_status j = M_FAILED) \<and>
                    (case mj_completed_at j of None \<Rightarrow> False | Some c \<Rightarrow> c < cutoff))) rows"

definition HOUR :: int where "HOUR = 3600 * 1000000"

definition TERMINAL_RETENTION :: int where "TERMINAL_RETENTION = 6 * HOUR"

definition periodic_cleanup_if_due :: "instant \<Rightarrow> instant option \<Rightarrow> MaintenanceJob list \<Rightarrow> instant option \<times> MaintenanceJob list" where
  "periodic_cleanup_if_due now last_cleanup rows =
     (case last_cleanup of
        Some t \<Rightarrow> if now - t < HOUR then (last_cleanup, rows)
                  else (Some now, delete_old_terminal rows (now - TERMINAL_RETENTION))
      | None \<Rightarrow> (Some now, delete_old_terminal rows (now - TERMINAL_RETENTION)))"

section \<open>Events\<close>

record 'd maint_state =
  rows :: "MaintenanceJob list"
  data :: 'd
  last_cleanup_at :: "instant option"

text \<open>A request enqueues; the worker takes a turn; the process restarts.\<close>

datatype maint_event =
    Enqueue uuid string "uuid option" dict "uuid option"
  | Turn instant cut
  | Restart

text \<open>One turn of \<open>_maintenance_worker_loop\<close>: a claim that raises is logged and tried again later.\<close>

definition worker_turn :: "'d maint_world \<Rightarrow> instant \<Rightarrow> instant \<Rightarrow> cut \<Rightarrow> 'd maint_state \<Rightarrow> 'd maint_state \<times> uuid list" where
  "worker_turn W t1 t2 stop_at s =
     (case process_next_job W t1 t2 stop_at (rows s, data s) of
        Inl _ \<Rightarrow> (s, [])
      | Inr ((rows', d'), claimed, handled) \<Rightarrow>
          if claimed then (s\<lparr>rows := rows', data := d'\<rparr>, handled)
          else let (lc, rows'') = periodic_cleanup_if_due t2 (last_cleanup_at s) rows'
               in (s\<lparr>rows := rows'', data := d', last_cleanup_at := lc\<rparr>, handled))"

fun happen :: "'d maint_world \<Rightarrow> instant \<Rightarrow> maint_event \<Rightarrow> 'd maint_state \<Rightarrow> 'd maint_state \<times> uuid list" where
  "happen W now (Enqueue i kind target params owner) s =
     ((case enqueue (rows s) now i kind target params owner of Inl _ \<Rightarrow> s | Inr (rows', _) \<Rightarrow> s\<lparr>rows := rows'\<rparr>), [])"
| "happen W now (Turn t2 stop_at) s = worker_turn W now t2 stop_at s"
| "happen W now Restart s =
     (s\<lparr>rows := mark_interrupted_on_restart (rows s) now, last_cleanup_at := None\<rparr>, [])"

fun happen_all :: "'d maint_world \<Rightarrow> (instant \<times> maint_event) list \<Rightarrow> 'd maint_state \<Rightarrow> 'd maint_state \<times> uuid list" where
  "happen_all W [] s = (s, [])"
| "happen_all W ((now, e) # es) s =
     (let (s1, handled) = happen W now e s; (s2, handled') = happen_all W es s1 in (s2, handled @ handled'))"

definition enqueued_ids :: "(instant \<times> maint_event) list \<Rightarrow> uuid list" where
  "enqueued_ids es = concat (map (\<lambda>(_, e). case e of Enqueue i _ _ _ _ \<Rightarrow> [i] | _ \<Rightarrow> []) es)"

section \<open>What an event does to the rows\<close>

text \<open>A row keeps what identifies it, never goes back to queued, and a finished one is left alone.\<close>

definition m_evolves :: "MaintenanceJob \<Rightarrow> MaintenanceJob \<Rightarrow> bool" where
  "m_evolves j j' \<longleftrightarrow> mj_id j' = mj_id j \<and> mj_kind j' = mj_kind j \<and> mj_target_id j' = mj_target_id j \<and>
     (mj_status j' = M_QUEUED \<longrightarrow> j' = j) \<and> (\<not> inflight j \<longrightarrow> j' = j)"

lemma m_evolves_refl [simp]: "m_evolves j j"
  by (simp add: m_evolves_def)

definition key_of :: "MaintenanceJob \<Rightarrow> string \<times> uuid option" where
  "key_of j = (mj_kind j, mj_target_id j)"

definition targeted :: "MaintenanceJob \<Rightarrow> bool" where
  "targeted j \<longleftrightarrow> inflight j \<and> mj_target_id j \<noteq> None"

text \<open>At most one job in flight per kind and target.\<close>

definition one_inflight :: "MaintenanceJob list \<Rightarrow> bool" where
  "one_inflight rs \<longleftrightarrow> distinct (map key_of (filter targeted rs))"

definition m_rows :: "uuid list \<Rightarrow> MaintenanceJob list \<Rightarrow> MaintenanceJob list \<Rightarrow> uuid list \<Rightarrow> bool" where
  "m_rows ids rs rs' handled \<longleftrightarrow> (\<exists>f keep added. rs' = map f (filter keep rs) @ added \<and>
     (\<forall>j\<in>set rs. m_evolves j (f j)) \<and> (\<forall>j\<in>set rs. keep j \<or> \<not> inflight j) \<and>
     (added = [] \<or> (\<exists>j. added = [j] \<and> ids = [mj_id j] \<and> mj_status j = M_QUEUED \<and>
        (mj_target_id j = None \<or> (\<forall>k\<in>set rs. inflight k \<longrightarrow> key_of k \<noteq> key_of j)))) \<and>
     (\<forall>i\<in>set handled. \<exists>j\<in>set rs. mj_id j = i \<and> mj_status j = M_QUEUED \<and> mj_status (f j) \<noteq> M_QUEUED) \<and>
     distinct handled)"

lemma m_rows_map:
  assumes "\<And>j. j \<in> set rs \<Longrightarrow> m_evolves j (f j)"
    and "\<And>i. i \<in> set handled \<Longrightarrow> \<exists>j\<in>set rs. mj_id j = i \<and> mj_status j = M_QUEUED \<and> mj_status (f j) \<noteq> M_QUEUED"
    and "distinct handled"
  shows "m_rows ids rs (map f rs) handled"
  unfolding m_rows_def using assms by (intro exI [of _ f] exI [of _ "\<lambda>_. True"] exI [of _ "[]"]) simp

lemma m_rows_filter:
  assumes "\<And>j. j \<in> set rs \<Longrightarrow> keep j \<or> \<not> inflight j"
  shows "m_rows ids rs (filter keep rs) []"
  unfolding m_rows_def using assms by (intro exI [of _ "\<lambda>j. j"] exI [of _ keep] exI [of _ "[]"]) simp

lemma m_rows_same: "m_rows ids rs rs []"
  using m_rows_map [of rs "\<lambda>j. j" "[]"] by simp

lemma m_rows_enqueue:
  assumes "enqueue rs now i kind target params owner = Inr (rs', job)"
  shows "m_rows [i] rs rs' []"
proof (cases "list_ex (conflicting kind target) rs")
  case True
  with assms show ?thesis by (auto simp: enqueue_def insert_job_def m_rows_same split: option.splits)
next
  case False
  let ?j = "new_maintenance_job now i kind target params owner"
  from False assms have "rs' = rs @ [?j]" by (auto simp: enqueue_def insert_job_def Let_def)
  moreover have "target = None \<or> (\<forall>k\<in>set rs. inflight k \<longrightarrow> key_of k \<noteq> key_of ?j)"
    using False by (auto simp: list_ex_iff conflicting_def key_of_def new_maintenance_job_def)
  ultimately show ?thesis
    unfolding m_rows_def
    by (intro exI [of _ "\<lambda>j. j"] exI [of _ "\<lambda>_. True"] exI [of _ "[?j]"]) (auto simp: new_maintenance_job_def)
qed

text \<open>A conflict is always with a job the request can be answered with.\<close>

lemma enqueue_total: "\<exists>rs' job. enqueue rs now i kind target params owner = Inr (rs', job)"
  by (auto simp: enqueue_def insert_job_def get_inflight_for_target_def Let_def list_ex_iff find_None_iff split: option.split)

lemma claim_next_oldest:
  assumes "claim_next rs = Some i"
  obtains j where "j \<in> set rs" and "mj_id j = i" and "mj_status j = M_QUEUED"
    and "\<forall>k\<in>set rs. mj_status k = M_QUEUED \<longrightarrow> mj_created_at j \<le> mj_created_at k"
proof -
  let ?q = "filter (\<lambda>j. mj_status j = M_QUEUED) rs"
  obtain j l where s: "sort_key mj_created_at ?q = j # l" and i: "mj_id j = i"
    using assms by (cases "sort_key mj_created_at ?q") (auto simp: claim_next_def first_by_def)
  have q: "set (j # l) = set ?q" using s by (metis set_sort)
  have srt: "sorted (map mj_created_at (j # l))" using s by (metis sorted_sort_key)
  show ?thesis
  proof (rule that [of j])
    show "\<forall>k\<in>set rs. mj_status k = M_QUEUED \<longrightarrow> mj_created_at j \<le> mj_created_at k"
    proof (intro ballI impI)
      fix k assume "k \<in> set rs" "mj_status k = M_QUEUED"
      then have "k \<in> set (j # l)" unfolding q by simp
      with srt show "mj_created_at j \<le> mj_created_at k" by auto
    qed
    have "j \<in> set ?q" using q by (metis list.set_intros(1))
    then show "j \<in> set rs" "mj_status j = M_QUEUED" by auto
  qed (rule i)
qed

lemma claim_next_None: "claim_next rs = None \<longleftrightarrow> (\<forall>j\<in>set rs. mj_status j \<noteq> M_QUEUED)"
proof -
  let ?q = "filter (\<lambda>j. mj_status j = M_QUEUED) rs"
  have "sort_key mj_created_at ?q = [] \<longleftrightarrow> ?q = []" by (metis length_sort length_0_conv)
  then show ?thesis
    by (cases "sort_key mj_created_at ?q") (auto simp: claim_next_def first_by_def filter_empty_conv)
qed

lemma update_row_twice:
  "(\<And>j. mj_id (f j) = mj_id j) \<Longrightarrow> update_row i g (update_row i f rs) = update_row i (\<lambda>j. g (f j)) rs"
  by (simp add: update_row_def)

text \<open>What recording the outcome makes of the claimed row.\<close>

definition ends :: "(MaintenanceJob \<Rightarrow> MaintenanceJob) \<Rightarrow> bool" where
  "ends g \<longleftrightarrow> (\<forall>j. mj_id (g j) = mj_id j \<and> mj_kind (g j) = mj_kind j \<and> mj_target_id (g j) = mj_target_id j \<and>
     mj_status (g j) \<noteq> M_QUEUED)"

lemma mark_running_ends: "\<exists>g. mark_running rs now i = update_row i g rs \<and> ends g"
  unfolding mark_running_def by (intro exI conjI, rule refl) (simp add: ends_def)

lemma ends_comp: "ends f \<Longrightarrow> ends g \<Longrightarrow> ends (\<lambda>j. g (f j))"
  by (simp add: ends_def)

lemma update_ends: "ends f \<Longrightarrow> ends g \<Longrightarrow> \<exists>h. update_row i g (update_row i f rs) = update_row i h rs \<and> ends h"
  by (rule exI [of _ "\<lambda>j. g (f j)"]) (simp add: update_row_twice ends_def)

lemma finalize_ends: "\<exists>g. finalize W (mark_running rs t i) now i failure = update_row i g rs \<and> ends g"
proof -
  obtain r where r: "mark_running rs t i = update_row i r rs" "ends r" using mark_running_ends by blast
  have fin: "mark_done ks now i = update_row i (\<lambda>j. j\<lparr>mj_status := M_DONE, mj_completed_at := Some now\<rparr>) ks" for ks
    by (simp add: mark_done_def)
  have fail: "\<exists>g. mark_failed W ks now i e = update_row i g ks \<and> ends g" for ks e
    unfolding mark_failed_def Let_def by (intro exI conjI, rule refl) (simp add: ends_def)
  have progress: "\<exists>g. update_progress (update_row i r rs) i p = update_row i g rs \<and> ends g" for p
    unfolding update_progress_def using r(2)
    by (intro exI [of _ "\<lambda>j. (r j)\<lparr>mj_progress := Some p\<rparr>"] conjI) (simp_all add: update_row_twice ends_def)
  show ?thesis
  proof (cases failure)
    case None
    then show ?thesis unfolding finalize_def r(1) using r(2)
      by (simp add: fin update_row_twice ends_def) (rule exI, rule conjI, rule refl, simp)
  next
    case (Some f)
    obtain e p where f: "f = (e, p)" by force
    obtain h where h: "(case p of None \<Rightarrow> update_row i r rs | Some q \<Rightarrow> update_progress (update_row i r rs) i q) = update_row i h rs"
      and "ends h" using progress r(2) by (cases p) auto
    obtain g where g: "mark_failed W (update_row i h rs) now i (if e = [] then ''Unknown error'' else e) =
        update_row i g (update_row i h rs)" "ends g" using fail by blast
    obtain k where "update_row i g (update_row i h rs) = update_row i k rs" "ends k"
      using update_ends [OF \<open>ends h\<close> g(2)] by blast
    then show ?thesis unfolding Some f finalize_def r(1) option.case prod.case Let_def h g(1) by blast
  qed
qed

lemma processE:
  assumes "process_next_job W t1 t2 stop_at (rs, d) = Inr ((rs', d'), claimed, handled)"
  obtains "rs' = rs" and "d' = d" and "\<not> claimed" and "handled = []" and "\<forall>j\<in>set rs. mj_status j \<noteq> M_QUEUED"
  | i g where "claimed" and "claim_next rs = Some i" and "rs' = update_row i g rs" and "ends g"
      and "handled = [] \<or> handled = [i]"
proof (cases "claim_next rs")
  case None
  with assms show ?thesis
    by (intro that(1)) (auto simp: process_next_job_def claim_one_def claim_next_None)
next
  case (Some i)
  obtain r where r: "mark_running rs t1 i = update_row i r rs" "ends r" using mark_running_ends by blast
  obtain j where "j \<in> set rs" "mj_id j = i" using claim_next_oldest [OF Some] by blast
  then have "i \<in> mj_id ` set (update_row i r rs)"
    using r(2) by (intro image_eqI [of _ _ "r j"]) (auto simp: update_row_def ends_def)
  then obtain job where job: "find (\<lambda>j. mj_id j = i) (mark_running rs t1 i) = Some job"
    unfolding r(1) by (cases "find (\<lambda>j. mj_id j = i) (update_row i r rs)") (auto simp: find_None_iff)
  then have id: "mj_id job = i" by (auto simp: find_Some_iff)
  have fin: "\<exists>g. finalize W (mark_running rs t1 i) t2 i failure = update_row i g rs \<and> ends g" for failure
    by (rule finalize_ends)
  have "readable W job" using assms Some job by (auto simp: process_next_job_def claim_one_def Let_def split: if_splits)
  with assms Some job id have *: "claimed" "handled = [] \<or> handled = [i]"
      "rs' = mark_running rs t1 i \<or> (\<exists>failure. rs' = finalize W (mark_running rs t1 i) t2 i failure)"
    by (auto simp: process_next_job_def claim_one_def Let_def split: if_splits sum.splits)
  from *(3) r fin obtain g where "rs' = update_row i g rs" "ends g" by metis
  with *(1,2) Some show ?thesis by (intro that(2))
qed

lemma m_rows_turn:
  assumes d: "distinct (map mj_id (rows s))" and t: "worker_turn W t1 t2 stop_at s = (s', handled)"
  shows "m_rows ids (rows s) (rows s') handled"
proof (cases "process_next_job W t1 t2 stop_at (rows s, data s)")
  case (Inl e)
  with t show ?thesis by (simp add: worker_turn_def m_rows_same)
next
  case (Inr r)
  obtain rs' d' claimed h where r: "r = ((rs', d'), claimed, h)" by (metis surj_pair)
  have p: "process_next_job W t1 t2 stop_at (rows s, data s) = Inr ((rs', d'), claimed, h)" using Inr r by simp
  from p show ?thesis
  proof (cases rule: processE)
    case 1
    then have "handled = []" "rows s' = snd (periodic_cleanup_if_due t2 (last_cleanup_at s) (rows s))"
      using t p by (auto simp: worker_turn_def split: prod.splits)
    then show ?thesis
      by (auto simp: periodic_cleanup_if_due_def m_rows_same delete_old_terminal_def inflight_def
          intro!: m_rows_filter split: option.split)
  next
    case (2 i g)
    then have s': "rows s' = update_row i g (rows s)" "handled = h" using t p by (auto simp: worker_turn_def)
    obtain j where j: "j \<in> set (rows s)" "mj_id j = i" "mj_status j = M_QUEUED" using claim_next_oldest [OF 2(2)] by blast
    have only: "k = j" if "k \<in> set (rows s)" "mj_id k = i" for k
      using d that j by (metis inj_on_distinct_map inj_on_eq_iff)
    show ?thesis
      unfolding s' update_row_def
    proof (rule m_rows_map)
      show "m_evolves k (if mj_id k = i then g k else k)" if "k \<in> set (rows s)" for k
        using only [OF that] 2(4) j(3) by (auto simp: m_evolves_def ends_def inflight_def)
      show "\<exists>j\<in>set (rows s). mj_id j = l \<and> mj_status j = M_QUEUED \<and> mj_status (if mj_id j = i then g j else j) \<noteq> M_QUEUED"
        if "l \<in> set h" for l
        using that 2(4,5) j by (intro bexI [of _ j]) (auto simp: ends_def)
      show "distinct h" using 2(5) by auto
    qed
  qed
qed

lemma happen_rows:
  assumes "distinct (map mj_id (rows s))" and "happen W now e s = (s', handled)"
  shows "m_rows (enqueued_ids [(now, e)]) (rows s) (rows s') handled"
proof (cases e)
  case (Enqueue i kind target params owner)
  obtain rs' job where "enqueue (rows s) now i kind target params owner = Inr (rs', job)" using enqueue_total by blast
  with assms Enqueue m_rows_enqueue [OF this] show ?thesis by (auto simp: enqueued_ids_def)
next
  case (Turn t2 stop_at)
  with assms m_rows_turn show ?thesis by simp
next
  case Restart
  with assms show ?thesis
    by (auto simp: mark_interrupted_on_restart_def m_evolves_def inflight_def intro!: m_rows_map)
qed

section \<open>Runs\<close>

lemma enqueued_ids_Cons: "enqueued_ids (x # es) = enqueued_ids [x] @ enqueued_ids es"
  by (simp add: enqueued_ids_def)

lemma keys_subseq:
  assumes "\<And>j. j \<in> set rs \<Longrightarrow> m_evolves j (f j)"
  shows "subseq (map key_of (filter targeted (map f (filter keep rs)))) (map key_of (filter targeted rs))"
  using assms
proof (induction rs)
  case (Cons j rs)
  then have e: "m_evolves j (f j)" by simp
  then have "targeted (f j) \<Longrightarrow> targeted j" "key_of (f j) = key_of j"
    by (auto simp: m_evolves_def targeted_def key_of_def)
  with Cons show ?case by auto
qed simp

lemma subseq_set: "subseq xs ys \<Longrightarrow> set xs \<subseteq> set ys"
  by (induction rule: list_emb.induct) auto

lemma subseq_distinct: "subseq xs ys \<Longrightarrow> distinct ys \<Longrightarrow> distinct xs"
  by (induction rule: list_emb.induct) (auto dest: subseq_set)

lemma m_rows_step:
  assumes m: "m_rows ids rs rs' handled" and d: "distinct (map mj_id rs @ ids @ later)"
  shows "distinct (map mj_id rs' @ later)" (is ?ids)
    and "one_inflight rs \<Longrightarrow> one_inflight rs'"
    and "\<forall>i\<in>set handled. (\<exists>j\<in>set rs. mj_id j = i \<and> mj_status j = M_QUEUED) \<and>
           (\<forall>j\<in>set rs'. mj_id j = i \<longrightarrow> mj_status j \<noteq> M_QUEUED)" (is ?handled)
    and "\<forall>j'\<in>set rs'. mj_status j' = M_QUEUED \<longrightarrow> j' \<in> set rs \<or> mj_id j' \<in> set ids" (is ?queued)
    and "distinct handled"
proof -
  obtain f keep added where rs': "rs' = map f (filter keep rs) @ added"
    and ev: "\<forall>j\<in>set rs. m_evolves j (f j)"
    and new: "added = [] \<or> (\<exists>j. added = [j] \<and> ids = [mj_id j] \<and> mj_status j = M_QUEUED \<and>
        (mj_target_id j = None \<or> (\<forall>k\<in>set rs. inflight k \<longrightarrow> key_of k \<noteq> key_of j)))"
    and han: "\<forall>i\<in>set handled. \<exists>j\<in>set rs. mj_id j = i \<and> mj_status j = M_QUEUED \<and> mj_status (f j) \<noteq> M_QUEUED"
    and dh: "distinct handled"
    using m unfolding m_rows_def by blast
  have fid: "map mj_id (map f (filter keep rs)) = map mj_id (filter keep rs)" using ev by (auto simp: m_evolves_def)
  show ?ids unfolding rs' map_append fid using d new by (auto simp: distinct_map_filter)
  show "distinct handled" by (rule dh)
  have old: "j' = f j" if at: "j' \<in> set rs'" "j \<in> set rs" "mj_id j' = mj_id j" for j j'
  proof -
    have "j' \<notin> set added" using at d new by auto
    then obtain k where "k \<in> set rs" "j' = f k" using at(1) by (auto simp: rs')
    moreover from this at(2,3) have "k = j" using ev d
      by (metis distinct_append inj_on_distinct_map inj_on_eq_iff m_evolves_def)
    ultimately show ?thesis by simp
  qed
  show ?handled using han old by metis
  show ?queued using ev new by (auto simp: rs' m_evolves_def)
  show "one_inflight rs'" if one: "one_inflight rs"
  proof -
    have sub: "subseq (map key_of (filter targeted (map f (filter keep rs)))) (map key_of (filter targeted rs))"
      by (rule keys_subseq) (use ev in blast)
    with one have "distinct (map key_of (filter targeted (map f (filter keep rs))))"
      unfolding one_inflight_def by (blast intro: subseq_distinct)
    moreover have "key_of j \<notin> set (map key_of (filter targeted (map f (filter keep rs))))"
      if "added = [j]" "targeted j" for j
    proof
      assume "key_of j \<in> set (map key_of (filter targeted (map f (filter keep rs))))"
      then have "key_of j \<in> set (map key_of (filter targeted rs))" using sub by (meson subseq_set subsetD)
      with that new show False by (auto simp: targeted_def)
    qed
    ultimately show ?thesis using new by (auto simp: one_inflight_def rs')
  qed
qed

lemma happen_all_inv:
  "happen_all W es s = (s', handled) \<Longrightarrow> distinct (map mj_id (rows s) @ enqueued_ids es) \<Longrightarrow>
   distinct handled \<and> distinct (map mj_id (rows s')) \<and> (one_inflight (rows s) \<longrightarrow> one_inflight (rows s')) \<and>
   (\<forall>i\<in>set handled. (\<exists>j\<in>set (rows s). mj_id j = i \<and> mj_status j = M_QUEUED) \<or> i \<in> set (enqueued_ids es))"
proof (induction es arbitrary: s handled)
  case (Cons x es)
  obtain now e where x: "x = (now, e)" by force
  obtain s1 h1 h2 where h: "happen W now e s = (s1, h1)" and rest: "happen_all W es s1 = (s', h2)"
    and hd: "handled = h1 @ h2" using Cons.prems(1) unfolding x by (auto simp: Let_def split: prod.splits)
  have d: "distinct (map mj_id (rows s) @ enqueued_ids [(now, e)] @ enqueued_ids es)"
    using Cons.prems(2) unfolding x by (subst (asm) enqueued_ids_Cons)
  then have "m_rows (enqueued_ids [(now, e)]) (rows s) (rows s1) h1" using happen_rows [OF _ h] by simp
  note step = m_rows_step [OF this d]
  note IH = Cons.IH [OF rest step(1)]
  have ids: "set (enqueued_ids (x # es)) = set (enqueued_ids [(now, e)]) \<union> set (enqueued_ids es)"
    unfolding x by (subst enqueued_ids_Cons) simp
  have "i \<notin> set h2" if i: "i \<in> set h1" for i
  proof
    assume "i \<in> set h2"
    then consider j where "j \<in> set (rows s1)" "mj_id j = i" "mj_status j = M_QUEUED" | "i \<in> set (enqueued_ids es)"
      using IH by blast
    then show False
    proof cases
      case 2
      obtain j where "j \<in> set (rows s)" "mj_id j = i" using step(3) i by blast
      with 2 d show False by auto
    qed (use step(3) i in blast)
  qed
  moreover have "(\<exists>j\<in>set (rows s). mj_id j = i \<and> mj_status j = M_QUEUED) \<or> i \<in> set (enqueued_ids (x # es))"
    if "i \<in> set handled" for i
    using that IH step(3,4) unfolding hd ids by fastforce
  ultimately show ?case using IH step(2,5) hd by auto
qed (simp add: enqueued_ids_def)

section \<open>Draining the queue\<close>

abbreviation queued_rows :: "MaintenanceJob list \<Rightarrow> MaintenanceJob list" where
  "queued_rows rs \<equiv> filter (\<lambda>j. mj_status j = M_QUEUED) rs"

lemma queued_update: "ends g \<Longrightarrow> queued_rows (update_row i g rs) = filter (\<lambda>k. mj_id k \<noteq> i) (queued_rows rs)"
  by (induction rs) (auto simp: update_row_def ends_def)

lemma process_fewer:
  assumes p: "process_next_job W t1 t2 stop_at s = Inr (s', True, handled)"
  shows "length (queued_rows (fst s')) < length (queued_rows (fst s))"
proof -
  obtain rs d rs' d' where s: "s = (rs, d)" "s' = (rs', d')" by force
  from p [unfolded s] show ?thesis
  proof (cases rule: processE)
    case (2 i g)
    obtain j where "j \<in> set (queued_rows rs)" "mj_id j = i" using claim_next_oldest [OF 2(2)] by auto
    then have "length (filter (\<lambda>k. mj_id k \<noteq> i) (queued_rows rs)) < length (queued_rows rs)"
      by (intro length_filter_less) auto
    then show ?thesis by (simp only: s fst_conv 2(3) queued_update [OF 2(4)])
  qed simp
qed

text \<open>The worker's turns until it finds nothing to claim.\<close>

function drain :: "'d maint_world \<Rightarrow> (nat \<Rightarrow> instant \<times> instant) \<Rightarrow> nat \<Rightarrow> MaintenanceJob list \<times> 'd \<Rightarrow> (MaintenanceJob list \<times> 'd) \<times> uuid list" where
  "drain W clock n s =
     (case process_next_job W (fst (clock n)) (snd (clock n)) Whole s of
        Inr (s', True, handled) \<Rightarrow> (let (s'', handled') = drain W clock (Suc n) s' in (s'', handled @ handled'))
      | _ \<Rightarrow> (s, []))"
  by pat_completeness auto

termination
  by (relation "measure (\<lambda>(W, clock, n, s). length (queued_rows (fst s)))") (auto dest!: process_fewer)

declare drain.simps [simp del]

definition claimed_at :: "instant \<Rightarrow> MaintenanceJob \<Rightarrow> MaintenanceJob" where
  "claimed_at t j = j\<lparr>mj_status := M_RUNNING, mj_started_at := Some t\<rparr>"

definition after_handler :: "'d maint_world \<Rightarrow> MaintenanceJob \<Rightarrow> 'd \<Rightarrow> 'd" where
  "after_handler W j d = (case run_handler W j d of Inl _ \<Rightarrow> d | Inr d' \<Rightarrow> d')"

text \<open>The handlers of the queued jobs, oldest first, on the data.\<close>

fun handle_in_order :: "'d maint_world \<Rightarrow> (nat \<Rightarrow> instant \<times> instant) \<Rightarrow> nat \<Rightarrow> MaintenanceJob list \<Rightarrow> 'd \<Rightarrow> 'd" where
  "handle_in_order W clock n [] d = d"
| "handle_in_order W clock n (j # js) d =
     handle_in_order W clock (Suc n) js (after_handler W (claimed_at (fst (clock n)) j) d)"

lemma update_row_finishes:
  "ends g \<Longrightarrow> \<forall>j. \<not> inflight (g j) \<Longrightarrow> j \<in> set rs \<Longrightarrow> mj_id j = i \<Longrightarrow>
   \<exists>j'\<in>set (update_row i g rs). mj_id j' = i \<and> \<not> inflight j'"
  by (intro bexI [of _ "g j"]) (auto simp: update_row_def ends_def)

lemma finalize_final: "\<exists>g. finalize W (mark_running rs t i) now i failure = update_row i g rs \<and> ends g \<and> (\<forall>j. \<not> inflight (g j))"
proof -
  have whole: "finalize W (mark_running rs t i) now i failure =
    update_row i (\<lambda>j. case failure of
        None \<Rightarrow> j\<lparr>mj_status := M_DONE, mj_started_at := Some t, mj_completed_at := Some now\<rparr>
      | Some (e, p) \<Rightarrow>
          let s = readable_error W (if e = [] then ''Unknown error'' else e) in
          j\<lparr>mj_status := M_FAILED, mj_started_at := Some t, mj_completed_at := Some now,
            mj_progress := (case p of None \<Rightarrow> mj_progress j | Some q \<Rightarrow> Some q),
            mj_error := Some (take 2000 (if s = [] then ''Job failed'' else s))\<rparr>) rs"
    by (auto simp: finalize_def mark_running_def mark_done_def mark_failed_def update_progress_def update_row_def Let_def
        split: option.split)
  show ?thesis unfolding whole
    by (intro exI conjI, rule refl) (auto simp: ends_def inflight_def Let_def split: option.split)
qed

lemma sort_after_head:
  assumes d: "distinct (map mj_id rs)" and s: "sort_key mj_created_at (queued_rows rs) = j # l" and g: "ends g"
  shows "sort_key mj_created_at (queued_rows (update_row (mj_id j) g rs)) = l"
proof -
  have "sort_key mj_created_at (queued_rows (update_row (mj_id j) g rs)) = filter (\<lambda>k. mj_id k \<noteq> mj_id j) (j # l)"
    unfolding queued_update [OF g] filter_sort [of _ mj_created_at "queued_rows rs", symmetric] s ..
  moreover have "distinct (map mj_id (j # l))"
  proof -
    have "mset (map mj_id (j # l)) = mset (map mj_id (queued_rows rs))" by (metis mset_map mset_sort s)
    then show ?thesis using d by (metis distinct_map_filter mset_eq_imp_distinct_iff)
  qed
  ultimately show ?thesis by (auto simp: filter_id_conv) (metis imageI)
qed

lemma whole_turn:
  assumes d: "distinct (map mj_id rs)" and s: "sort_key mj_created_at (queued_rows rs) = j # l"
    and r: "\<forall>j. readable W j"
  obtains g h where "process_next_job W t1 t2 Whole (rs, x) =
      Inr ((update_row (mj_id j) g rs, after_handler W (claimed_at t1 j) x), True, h)" and "ends g" and "\<forall>j. \<not> inflight (g j)"
proof -
  have "set (j # l) = set (queued_rows rs)" using s by (metis set_sort)
  then have j: "j \<in> set rs" by auto
  have c: "claim_next rs = Some (mj_id j)" by (simp add: claim_next_def first_by_def s)
  have "find (\<lambda>k. mj_id k = mj_id j) (mark_running rs t1 (mj_id j)) = Some (claimed_at t1 j)"
    using d j unfolding mark_running_def update_row_def claimed_at_def by (induction rs) (auto simp: image_iff)
  with c r have cl: "claim_one W rs t1 = Inr (mark_running rs t1 (mj_id j), Some (claimed_at t1 j))"
    by (simp add: claim_one_def Let_def)
  have i: "mj_id (claimed_at t1 j) = mj_id j" by (simp add: claimed_at_def)
  obtain g where g: "finalize W (mark_running rs t1 (mj_id j)) t2 (mj_id j)
       (case run_handler W (claimed_at t1 j) x of Inl f \<Rightarrow> Some f | Inr _ \<Rightarrow> None) = update_row (mj_id j) g rs"
    and "ends g" "\<forall>j. \<not> inflight (g j)" using finalize_final by blast
  moreover have "\<exists>h. process_next_job W t1 t2 Whole (rs, x) =
      Inr ((update_row (mj_id j) g rs, after_handler W (claimed_at t1 j) x), True, h)"
    using g by (cases "run_handler W (claimed_at t1 j) x") (simp_all add: process_next_job_def cl i after_handler_def)
  ultimately show ?thesis using that by blast
qed

lemma drain_all:
  assumes "\<forall>j. readable W j"
  shows "sort_key mj_created_at (queued_rows rs) = q \<Longrightarrow> distinct (map mj_id rs) \<Longrightarrow> drain W clock n (rs, d) = ((rs', d'), h) \<Longrightarrow>
    d' = handle_in_order W clock n q d \<and> queued_rows rs' = [] \<and> map mj_id rs' = map mj_id rs \<and>
    (\<forall>j\<in>set rs. mj_status j \<noteq> M_QUEUED \<longrightarrow> j \<in> set rs') \<and>
    (\<forall>j\<in>set q. \<exists>j'\<in>set rs'. mj_id j' = mj_id j \<and> \<not> inflight j')"
proof (induction q arbitrary: rs d n h)
  case Nil
  then have e: "queued_rows rs = []" by (metis length_sort length_0_conv)
  then have "claim_next rs = None" by (auto simp: claim_next_None filter_empty_conv)
  then have "drain W clock n (rs, d) = ((rs, d), [])" by (subst drain.simps) (simp add: process_next_job_def claim_one_def)
  with Nil e show ?case by simp
next
  case (Cons j l)
  obtain g h1 where p: "process_next_job W (fst (clock n)) (snd (clock n)) Whole (rs, d) =
      Inr ((update_row (mj_id j) g rs, after_handler W (claimed_at (fst (clock n)) j) d), True, h1)"
    and g: "ends g" "\<forall>j. \<not> inflight (g j)" using whole_turn [OF Cons.prems(2,1) assms] by blast
  let ?rs = "update_row (mj_id j) g rs"
  have ids: "map mj_id ?rs = map mj_id rs" using g(1) by (auto simp: update_row_def ends_def)
  obtain h2 where rest: "drain W clock (Suc n) (?rs, after_handler W (claimed_at (fst (clock n)) j) d) = ((rs', d'), h2)"
    using Cons.prems(3) p by (subst (asm) drain.simps) (auto split: prod.splits)
  have "distinct (map mj_id ?rs)" using Cons.prems(2) ids by simp
  note IH = Cons.IH [OF sort_after_head [OF Cons.prems(2,1) g(1)] this rest]
  have "set (j # l) = set (queued_rows rs)" using Cons.prems(1) by (metis set_sort)
  then have j: "j \<in> set rs" "mj_status j = M_QUEUED" by auto
  have keep: "k \<in> set rs'" if "k \<in> set rs" "mj_status k \<noteq> M_QUEUED" for k
  proof -
    have "mj_id k \<noteq> mj_id j" using that j Cons.prems(2) by (metis inj_on_distinct_map inj_on_eq_iff)
    then have "k \<in> set ?rs" using that(1) by (auto simp: update_row_def)
    with IH that(2) show ?thesis by blast
  qed
  obtain j' where "j' \<in> set ?rs" "mj_id j' = mj_id j" "\<not> inflight j'" using update_row_finishes [OF g j(1) refl] by blast
  then have "j' \<in> set rs'" using IH by (auto simp: inflight_def)
  with \<open>mj_id j' = mj_id j\<close> \<open>\<not> inflight j'\<close> IH ids keep show ?case by auto
qed

section \<open>Properties\<close>

text \<open>C38: Whatever happens (requests that enqueue, turns of the worker, turns cut off by a kill or a failing
  record, restarts, clean-ups), at most one job per kind and target is queued or running, and a
  request to enqueue never fails: it adds its job, or, when one for its target is in flight, adds
  nothing and answers with that one.\<close>

theorem one_job_per_target:
  assumes "happen_all W es s = (s', handled)" and "distinct (map mj_id (rows s) @ enqueued_ids es)"
    and "one_inflight (rows s)"
  shows "one_inflight (rows s') \<and>
    (\<forall>now i kind target params owner. \<exists>rs' job. enqueue (rows s') now i kind target params owner = Inr (rs', job) \<and>
       mj_kind job = kind \<and> mj_target_id job = target \<and>
       (rs' = rows s' @ [job] \<and> mj_id job = i \<or> rs' = rows s' \<and> job \<in> set (rows s') \<and> inflight job))"
proof (intro conjI allI)
  show "one_inflight (rows s')" using happen_all_inv [OF assms(1,2)] assms(3) by blast
  fix now i kind target params owner
  show "\<exists>rs' job. enqueue (rows s') now i kind target params owner = Inr (rs', job) \<and>
      mj_kind job = kind \<and> mj_target_id job = target \<and>
      (rs' = rows s' @ [job] \<and> mj_id job = i \<or> rs' = rows s' \<and> job \<in> set (rows s') \<and> inflight job)"
  proof (cases "find (conflicting kind target) (rows s')")
    case None
    then show ?thesis
      by (auto simp: enqueue_def insert_job_def Let_def list_ex_iff find_None_iff new_maintenance_job_def)
  next
    case (Some job)
    then have "job \<in> set (rows s')" "conflicting kind target job" by (auto simp: find_Some_iff)
    with Some show ?thesis
      by (auto simp: enqueue_def insert_job_def get_inflight_for_target_def list_ex_iff conflicting_def)
  qed
qed

text \<open>C39: Across kills, lost records and restarts, the handler of a job commits at most once, and only for
  a job that was queued at the start or has been enqueued since.\<close>

theorem handled_at_most_once:
  assumes "happen_all W es s = (s', handled)" and "distinct (map mj_id (rows s) @ enqueued_ids es)"
  shows "distinct handled \<and>
    (\<forall>i\<in>set handled. (\<exists>j\<in>set (rows s). mj_id j = i \<and> mj_status j = M_QUEUED) \<or> i \<in> set (enqueued_ids es))"
  using happen_all_inv [OF assms] by blast

text \<open>C40: Undisturbed, and with parameters the key can read, the worker empties the queue: it runs the
  handlers of the queued jobs on the data one after the other, oldest first, finishes each of them,
  whether its handler succeeds or fails, and leaves every other row as it is.\<close>

theorem queue_drains:
  assumes "\<forall>j. readable W j" and "distinct (map mj_id rs)" and "drain W clock n (rs, d) = ((rs', d'), handled)"
  shows "d' = handle_in_order W clock n (sort_key mj_created_at (queued_rows rs)) d \<and> queued_rows rs' = [] \<and>
    map mj_id rs' = map mj_id rs \<and> (\<forall>j\<in>set rs. mj_status j \<noteq> M_QUEUED \<longrightarrow> j \<in> set rs') \<and>
    (\<forall>j\<in>set (queued_rows rs). \<exists>j'\<in>set rs'. mj_id j' = mj_id j \<and> \<not> inflight j')"
  using drain_all [OF assms(1) refl assms(2,3)] by simp

text \<open>A handler whose outcome is not recorded (the process is killed after it committed) is reported
  failed after the restart although its change is in the data.\<close>

theorem applied_but_failed:
  assumes "distinct (map mj_id rs)" and "sort_key mj_created_at (queued_rows rs) = j # l" and "\<forall>j. readable W j"
    and "run_handler W (claimed_at t1 j) d = Inr d'"
  shows "\<exists>rs1. process_next_job W t1 t2 AfterHandler (rs, d) = Inr ((rs1, d'), True, [mj_id j]) \<and>
    (\<exists>j'\<in>set (mark_interrupted_on_restart rs1 t3). mj_id j' = mj_id j \<and> mj_status j' = M_FAILED \<and>
       mj_error j' = Some ''Interrupted by process restart'')"
proof -
  have "set (j # l) = set (queued_rows rs)" using assms(2) by (metis set_sort)
  then have j: "j \<in> set rs" by auto
  have c: "claim_next rs = Some (mj_id j)" by (simp add: claim_next_def first_by_def assms(2))
  have f: "find (\<lambda>k. mj_id k = mj_id j) (mark_running rs t1 (mj_id j)) = Some (claimed_at t1 j)"
    using assms(1) j unfolding mark_running_def update_row_def claimed_at_def by (induction rs) (auto simp: image_iff)
  have "process_next_job W t1 t2 AfterHandler (rs, d) = Inr ((mark_running rs t1 (mj_id j), d'), True, [mj_id j])"
    using c f assms(3,4) by (simp add: process_next_job_def claim_one_def Let_def) (simp add: claimed_at_def)
  moreover have "claimed_at t1 j \<in> set (mark_running rs t1 (mj_id j))"
    using f by (auto simp: find_Some_iff)
  then have "(claimed_at t1 j)\<lparr>mj_status := M_FAILED, mj_error := Some ''Interrupted by process restart'',
      mj_completed_at := Some t3\<rparr> \<in> set (mark_interrupted_on_restart (mark_running rs t1 (mj_id j)) t3)"
    unfolding mark_interrupted_on_restart_def set_map by (rule rev_image_eqI) (simp add: claimed_at_def)
  then have "\<exists>j'\<in>set (mark_interrupted_on_restart (mark_running rs t1 (mj_id j)) t3). mj_id j' = mj_id j \<and>
      mj_status j' = M_FAILED \<and> mj_error j' = Some ''Interrupted by process restart''"
    by (rule rev_bexI) (simp add: claimed_at_def)
  ultimately show ?thesis by blast
qed

section \<open>Witnesses\<close>

text \<open>Data counting the runs of its one handler.\<close>

definition counting_world :: "nat maint_world" where
  "counting_world = \<lparr>HANDLERS = (\<lambda>k. if k = ''agent_delete'' then Some (\<lambda>_ n. Inr (n + 1)) else None),
     readable = (\<lambda>_. True), readable_error = (\<lambda>e. e)\<rparr>"

definition demo_maint :: "nat maint_state" where
  "demo_maint = \<lparr>rows = [new_maintenance_job 0 1 ''agent_delete'' (Some 7) [] None], data = 0, last_cleanup_at = None\<rparr>"

definition demo_events :: "(instant \<times> maint_event) list" where
  "demo_events = [(1, Enqueue 2 ''agent_delete'' (Some 7) [] None), (2, Turn 3 AfterHandler), (4, Turn 5 Whole),
     (6, Restart), (7, Enqueue 3 ''agent_delete'' (Some 7) [] None), (8, Turn 9 Whole)]"

theorem one_job_per_target_witness: "one_inflight (rows (fst (happen_all counting_world demo_events demo_maint)))"
proof -
  obtain s' h where run: "happen_all counting_world demo_events demo_maint = (s', h)" by force
  have "distinct (map mj_id (rows demo_maint) @ enqueued_ids demo_events)" "one_inflight (rows demo_maint)"
    by (simp_all add: demo_maint_def demo_events_def enqueued_ids_def new_maintenance_job_def one_inflight_def)
  from one_job_per_target [OF run this] show ?thesis unfolding run by simp
qed

theorem handled_at_most_once_witness: "distinct (snd (happen_all counting_world demo_events demo_maint))"
proof -
  obtain s' h where run: "happen_all counting_world demo_events demo_maint = (s', h)" by force
  have "distinct (map mj_id (rows demo_maint) @ enqueued_ids demo_events)"
    by (simp add: demo_maint_def demo_events_def enqueued_ids_def new_maintenance_job_def)
  from handled_at_most_once [OF run this] show ?thesis unfolding run by simp
qed

theorem queue_drains_witness: "snd (fst (drain counting_world (\<lambda>_. (1, 2)) 0 (rows demo_maint, 0))) = 1"
proof -
  obtain rs' d' h where run: "drain counting_world (\<lambda>_. (1, 2)) 0 (rows demo_maint, 0) = ((rs', d'), h)" by (metis surj_pair)
  have "\<forall>j. readable counting_world j" "distinct (map mj_id (rows demo_maint))"
    by (simp_all add: counting_world_def demo_maint_def)
  from queue_drains [OF this run] show ?thesis
    unfolding run by (simp add: demo_maint_def new_maintenance_job_def after_handler_def run_handler_def counting_world_def claimed_at_def)
qed

theorem applied_but_failed_witness:
  "\<exists>rs1. process_next_job counting_world 1 2 AfterHandler (rows demo_maint, 0) = Inr ((rs1, 1), True, [1]) \<and>
    (\<exists>j'\<in>set (mark_interrupted_on_restart rs1 3). mj_id j' = 1 \<and> mj_status j' = M_FAILED)"
proof -
  let ?j = "new_maintenance_job 0 1 ''agent_delete'' (Some 7) [] None"
  have "distinct (map mj_id (rows demo_maint))" "sort_key mj_created_at (queued_rows (rows demo_maint)) = ?j # []"
    "\<forall>j. readable counting_world j" "run_handler counting_world (claimed_at 1 ?j) 0 = Inr 1" and i: "mj_id ?j = 1"
    by (simp_all add: demo_maint_def new_maintenance_job_def counting_world_def run_handler_def claimed_at_def)
  from applied_but_failed [OF this(1-4), of 2 3] show ?thesis unfolding i by blast
qed

end
