(* ===== verification/Spec2Isabelle.thy ===== *)
theory Spec2Isabelle
  imports Replay StatusFeed TriggerConfig JobProcessor Maintenance
begin

text \<open>Verification of LuxSwirl.\<close>

end
